theory Spec2Isabelle
  imports Main "HOL-Library.AList"
begin

section \<open>Strings\<close>

text \<open>
  Go strings are byte sequences; they are modelled as \<open>string\<close> (a list of \<open>char\<close>).
  The functions below are the ones of package \<open>strings\<close> that \<open>analyzer.go\<close> calls.
\<close>

text \<open>\<open>strings.Split(s, sep)\<close> for a separator of one byte: the pieces between the
  occurrences of the separator; one piece more than there are separators, so the empty
  string gives one empty piece.\<close>

fun Split :: "string \<Rightarrow> char \<Rightarrow> string list" where
  "Split [] sep = [[]]"
| "Split (x # xs) sep =
     (if x = sep then [] # Split xs sep
      else (case Split xs sep of
              [] \<Rightarrow> [[x]]
            | w # ws \<Rightarrow> (x # w) # ws))"

definition HasPrefix :: "string \<Rightarrow> string \<Rightarrow> bool" where
  "HasPrefix s pre = (length s \<ge> length pre \<and> take (length pre) s = pre)"

definition HasSuffix :: "string \<Rightarrow> string \<Rightarrow> bool" where
  "HasSuffix s suf = (length s \<ge> length suf \<and> drop (length s - length suf) s = suf)"

definition TrimPrefix :: "string \<Rightarrow> string \<Rightarrow> string" where
  "TrimPrefix s pre = (if HasPrefix s pre then drop (length pre) s else s)"

section \<open>Path classifier\<close>

definition LibraryGroup :: string where "LibraryGroup = ''lib''"
definition InternalGroup :: string where "InternalGroup = ''internal''"
definition CommandGroup :: string where "CommandGroup = ''cmd''"
definition ModelGroup :: string where "ModelGroup = ''model''"
definition GenGroup :: string where "GenGroup = ''gen''"

text \<open>\<open>splitPackagePath\<close> (analyzer.go, lines 47 to 56).\<close>

definition splitPackagePath :: "string \<Rightarrow> string \<times> string list" where
  "splitPackagePath path =
     (let parts = Split path CHR ''/'' in
      if length parts < 2 then ('''', parts)
      else if length parts = 2 then (parts ! 0, drop 1 parts)
      else (parts ! 1, drop 2 parts))"

section \<open>Syntax trees\<close>

text \<open>
  The part of \<open>go/ast\<close> that the analyzer reads. A position (\<open>token.Pos\<close>) is an integer.
  Every node carries the value of its \<open>Pos()\<close> method. The fields that the analyzer
  inspects have the types they have in \<open>go/ast\<close>; the children it never inspects are
  kept as lists of nodes, in the order in which \<open>ast.Walk\<close> visits them. \<open>Other\<close> is a node
  of any kind for which the analyzer has no case.
\<close>

type_synonym token_Pos = int

datatype token = tokIMPORT | tokCONST | tokTYPE | tokVAR

datatype ident = Ident (identPos: token_Pos) (identName: string)

datatype basicLit = BasicLit (ValuePos: token_Pos) (Value: string)

datatype comment = Comment (Slash: token_Pos) (Text: string)

datatype commentGroup = CommentGroup (groupPos: token_Pos) (groupList: "comment list")

datatype importSpec =
  ImportSpec (impPos: token_Pos) (impDoc: "commentGroup option") (impName: "ident option")
    (Path: basicLit) (impComment: "commentGroup option")

datatype node =
    IdentNode ident
  | BasicLitNode basicLit
  | CommentNode comment
  | CommentGroupNode commentGroup
  | GoStmt token_Pos node
  | GenDecl token_Pos "commentGroup option" token "node list"
  | ImportSpecNode importSpec
  | ValueSpec token_Pos "commentGroup option" "ident list" "node list"
  | TypeSpec token_Pos "commentGroup option" ident "node list" node "commentGroup option"
  | StructType token_Pos "node list"
  | FuncDecl token_Pos "commentGroup option" "fieldList option" ident funcType
      "blockStmt option"
  | FuncTypeNode funcType
  | FieldListNode fieldList
  | FieldNode field
  | BlockStmtNode blockStmt
  | IfStmt token_Pos "node list" "node option"
  | ReturnStmt token_Pos "node list"
  | CallExpr token_Pos node "node list"
  | Other token_Pos "node list"
and funcType =
    FuncType (ftPos: token_Pos) (TypeParams: "fieldList option") (Params: "fieldList option")
      (Results: "fieldList option")
and fieldList = FieldList (flPos: token_Pos) (flList: "field list")
and field = Field (fieldPos: token_Pos) (Names: "ident list") (fieldType: node)
and blockStmt = BlockStmt (blockPos: token_Pos) (blockList: "node list")

datatype astFile =
  File (filePos: token_Pos) (fileDoc: "commentGroup option") (fileName: ident)
    (Decls: "node list") (Imports: "importSpec list")

text \<open>The method \<open>Pos()\<close> of a node.\<close>

fun Pos :: "node \<Rightarrow> token_Pos" where
  "Pos (IdentNode i) = identPos i"
| "Pos (BasicLitNode l) = ValuePos l"
| "Pos (CommentNode c) = Slash c"
| "Pos (CommentGroupNode g) = groupPos g"
| "Pos (GoStmt p _) = p"
| "Pos (GenDecl p _ _ _) = p"
| "Pos (ImportSpecNode imp) = impPos imp"
| "Pos (ValueSpec p _ _ _) = p"
| "Pos (TypeSpec p _ _ _ _ _) = p"
| "Pos (StructType p _) = p"
| "Pos (FuncDecl p _ _ _ _ _) = p"
| "Pos (FuncTypeNode ft) = ftPos ft"
| "Pos (FieldListNode fl) = flPos fl"
| "Pos (FieldNode f) = fieldPos f"
| "Pos (BlockStmtNode b) = blockPos b"
| "Pos (IfStmt p _ _) = p"
| "Pos (ReturnStmt p _) = p"
| "Pos (CallExpr p _ _) = p"
| "Pos (Other p _) = p"

subsection \<open>The traversal\<close>

text \<open>
  \<open>ast.Inspect(f, fn)\<close> calls \<open>fn\<close> on a node, then (as \<open>fn\<close> answers true) on the
  children of the node in the order of \<open>ast.Walk\<close>, and then calls \<open>fn(nil)\<close>. The
  functions below list the arguments of these calls: \<open>Some n\<close> for the node \<open>n\<close>,
  \<open>None\<close> for \<open>nil\<close>.
\<close>

definition walkIdent :: "ident \<Rightarrow> node option list" where
  "walkIdent i = [Some (IdentNode i), None]"

definition walkComments :: "commentGroup option \<Rightarrow> node option list" where
  "walkComments d =
     (case d of
        None \<Rightarrow> []
      | Some g \<Rightarrow> Some (CommentGroupNode g)
          # concat (map (\<lambda>c. [Some (CommentNode c), None]) (groupList g)) @ [None])"

fun walk :: "node \<Rightarrow> node option list"
  and walkFuncType :: "funcType \<Rightarrow> node option list"
  and walkFieldList :: "fieldList \<Rightarrow> node option list"
  and walkField :: "field \<Rightarrow> node option list"
  and walkBlock :: "blockStmt \<Rightarrow> node option list"
where
  "walk (IdentNode i) = walkIdent i"
| "walk (BasicLitNode l) = [Some (BasicLitNode l), None]"
| "walk (CommentNode c) = [Some (CommentNode c), None]"
| "walk (CommentGroupNode g) = walkComments (Some g)"
| "walk (GoStmt p call) = Some (GoStmt p call) # walk call @ [None]"
| "walk (GenDecl p doc tok specs) =
     Some (GenDecl p doc tok specs) # walkComments doc @ concat (map walk specs) @ [None]"
| "walk (ImportSpecNode imp) =
     Some (ImportSpecNode imp) # walkComments (impDoc imp)
       @ (case impName imp of None \<Rightarrow> [] | Some i \<Rightarrow> walkIdent i)
       @ [Some (BasicLitNode (Path imp)), None]
       @ walkComments (impComment imp) @ [None]"
| "walk (ValueSpec p doc names rest) =
     Some (ValueSpec p doc names rest) # walkComments doc
       @ concat (map walkIdent names) @ concat (map walk rest) @ [None]"
| "walk (TypeSpec p doc name tparams typ com) =
     Some (TypeSpec p doc name tparams typ com) # walkComments doc @ walkIdent name
       @ concat (map walk tparams) @ walk typ @ walkComments com @ [None]"
| "walk (StructType p fields) = Some (StructType p fields) # concat (map walk fields) @ [None]"
| "walk (FuncDecl p doc recv name typ body) =
     Some (FuncDecl p doc recv name typ body) # walkComments doc
       @ (case recv of None \<Rightarrow> [] | Some r \<Rightarrow> walkFieldList r)
       @ walkIdent name @ walkFuncType typ
       @ (case body of None \<Rightarrow> [] | Some b \<Rightarrow> walkBlock b) @ [None]"
| "walk (FuncTypeNode ft) = walkFuncType ft"
| "walk (FieldListNode fl) = walkFieldList fl"
| "walk (FieldNode f) = walkField f"
| "walk (BlockStmtNode b) = walkBlock b"
| "walk (IfStmt p inner els) =
     Some (IfStmt p inner els) # concat (map walk inner)
       @ (case els of None \<Rightarrow> [] | Some e \<Rightarrow> walk e) @ [None]"
| "walk (ReturnStmt p results) = Some (ReturnStmt p results) # concat (map walk results) @ [None]"
| "walk (CallExpr p fn args) =
     Some (CallExpr p fn args) # walk fn @ concat (map walk args) @ [None]"
| "walk (Other p children) = Some (Other p children) # concat (map walk children) @ [None]"
| "walkFuncType (FuncType p tparams params results) =
     Some (FuncTypeNode (FuncType p tparams params results))
       # (case tparams of None \<Rightarrow> [] | Some l \<Rightarrow> walkFieldList l)
       @ (case params of None \<Rightarrow> [] | Some l \<Rightarrow> walkFieldList l)
       @ (case results of None \<Rightarrow> [] | Some l \<Rightarrow> walkFieldList l) @ [None]"
| "walkFieldList (FieldList p fs) =
     Some (FieldListNode (FieldList p fs)) # concat (map walkField fs) @ [None]"
| "walkField (Field p names typ) =
     Some (FieldNode (Field p names typ)) # concat (map walkIdent names) @ walk typ @ [None]"
| "walkBlock (BlockStmt p stmts) =
     Some (BlockStmtNode (BlockStmt p stmts)) # concat (map walk stmts) @ [None]"

text \<open>A file is the root of the traversal: \<open>ast.Walk\<close> visits its \<open>Doc\<close>, its \<open>Name\<close>
  and its \<open>Decls\<close>. The analyzer has no case for a file, and reads no more of it in the
  callback than its position: as an argument of the callback it is a node of kind \<open>Other\<close>.\<close>

definition fileNode :: "astFile \<Rightarrow> node" where
  "fileNode f =
     Other (filePos f)
       ((case fileDoc f of None \<Rightarrow> [] | Some g \<Rightarrow> [CommentGroupNode g])
          @ IdentNode (fileName f) # Decls f)"

definition walkFile :: "astFile \<Rightarrow> node option list" where
  "walkFile f = walk (fileNode f)"

section \<open>The analyzer\<close>

subsection \<open>Diagnostics, errors and the state of a run\<close>

text \<open>
  A diagnostic is a position and the formatted message handed to \<open>pass.Reportf\<close>.
  A run that panics is the value \<open>Inl\<close> of an error. The field \<open>report\<close> of a
  \<open>Reporter\<close> is \<open>pass.Reportf\<close> in every reporter that the analyzer builds, so a
  reporter is modelled by its position. A Go map is an association list with distinct
  keys: \<open>map_of\<close> reads it, \<open>AList.update\<close> writes it, \<open>AList.delete\<close> deletes from
  it. Go leaves the order of \<open>range\<close> over a map open; here it is the order of the list.
\<close>

type_synonym diag = "token_Pos \<times> string"

datatype error = NilPointerDereference

record Reporter =
  pos :: token_Pos

record PairElement =
  Name :: string
  Reporter :: Reporter

record Pair =
  First :: "PairElement option"
  Second :: "PairElement option"

record state =
  reports :: "diag list"
  a2b :: "(string \<times> Pair) list"
  errorStructMap :: "(string \<times> Reporter) list"
  errorCheckerMap :: "(string \<times> Reporter) list"

definition initState :: state where
  "initState = \<lparr>reports = [], a2b = [], errorStructMap = [], errorCheckerMap = []\<rparr>"

text \<open>\<open>pass.Reportf\<close>, for the diagnostics that one rule reports, in their order.\<close>

definition Reportf :: "diag list \<Rightarrow> state \<Rightarrow> state" where
  "Reportf ds st = st\<lparr>reports := reports st @ ds\<rparr>"

text \<open>The format strings that take a name.\<close>

definition missingFunctionMessage :: "string \<Rightarrow> string" where
  "missingFunctionMessage name = ''missing '' @ name @ '' function''"

definition missingStructMessage :: "string \<Rightarrow> string" where
  "missingStructMessage name = ''missing '' @ name @ '' struct''"

definition exportedVarMessage :: "string \<Rightarrow> string" where
  "exportedVarMessage name =
     ''global variable or local temparary value '' @ name
       @ '' should not be exported or pascal case''"

definition bannedPackageNames :: "(string \<times> string) list" where
  "bannedPackageNames = [(''util'', ''use a more descriptive package name'')]"

definition bannedImportPaths :: "(string \<times> string) list" where
  "bannedImportPaths =
     [(''github.com/pkg/errors'', ''use fmt.Errorf and errors instead''),
      (''io/ioutil'', ''use os or package io instead'')]"

subsection \<open>Library functions\<close>

text \<open>\<open>Ident.IsExported\<close>: the name starts with an upper case letter. The model
  reads ASCII letters; identifiers that start with a letter outside ASCII are not
  covered.\<close>

definition IsExported :: "string \<Rightarrow> bool" where
  "IsExported name =
     (case name of
        [] \<Rightarrow> False
      | c # _ \<Rightarrow> (65 :: nat) \<le> of_char c \<and> of_char c \<le> (90 :: nat))"

text \<open>
  \<open>strconv.Unquote\<close> on a literal without escape sequences. A raw literal (between
  back quotes) must hold no back quote and loses its carriage returns. An interpreted
  literal (between double quotes) must hold no double quote and no newline. A literal with
  a backslash is decoded by Go through its escape sequences; they are not modelled, and
  the model answers \<open>None\<close> there, as it does for every other input (where Go
  answers an error, except for character literals, which no import path is). Between
  double quotes Go also replaces the bytes that are not valid UTF-8; the model keeps them
  (no banned path holds such a byte, before or after).
\<close>

definition Unquote :: "string \<Rightarrow> string option" where
  "Unquote s =
     (if length s < 2 then None
      else
        let quote = hd s; body = butlast (tl s) in
        if last s \<noteq> quote then None
        else if quote = CHR 0x60 then
          (if CHR 0x60 \<in> set body then None else Some (filter (\<lambda>c. c \<noteq> CHR 0x0D) body))
        else if quote = CHR 0x22 then
          (if CHR 0x22 \<in> set body \<or> CHR 0x0A \<in> set body \<or> CHR 0x5C \<in> set body then None
           else Some body)
        else None)"

subsection \<open>Layering rules (lines 83 to 122)\<close>

definition checkPackageName :: "string list \<Rightarrow> node option \<Rightarrow> error + diag list" where
  "checkPackageName parts node =
     (if length parts > 0 then
        (case map_of bannedPackageNames (last parts) of
           None \<Rightarrow> Inr []
         | Some desc \<Rightarrow>
             (case node of
                None \<Rightarrow> Inl NilPointerDereference
              | Some n \<Rightarrow>
                  Inr [(Pos n, ''should not use '' @ last parts @ '' to package name, '' @ desc)]))
      else Inr [])"

definition sameGroupCheck :: "string \<Rightarrow> string list \<Rightarrow> importSpec \<Rightarrow> diag list" where
  "sameGroupCheck grp parts imp =
     (let (impGroup, impParts) = splitPackagePath (Value (Path imp)) in
      if grp = impGroup \<and> length parts = length impParts
      then [(impPos imp, ''must not import from the same group, same depth'')]
      else [])"

definition forbiddenGroupCheck :: "string \<Rightarrow> importSpec \<Rightarrow> diag list" where
  "forbiddenGroupCheck grp imp =
     (let impGroup = fst (splitPackagePath (Value (Path imp))) in
      if grp = LibraryGroup then
        (if impGroup = InternalGroup then [(impPos imp, ''must not import from internal package'')]
         else if impGroup = CommandGroup then [(impPos imp, ''must not import from command package'')]
         else [])
      else if grp = InternalGroup then
        (if impGroup = CommandGroup then [(impPos imp, ''must not import from command package'')]
         else [])
      else if grp = ModelGroup \<or> grp = GenGroup then
        (if impGroup = CommandGroup then [(impPos imp, ''must not import from command package'')]
         else if impGroup = InternalGroup then [(impPos imp, ''must not import from internal package'')]
         else if impGroup = LibraryGroup then [(impPos imp, ''must not import from library package'')]
         else [])
      else [])"

text \<open>The body of the loop over \<open>f.Imports\<close>, and the loop.\<close>

definition checkImport :: "string \<Rightarrow> string list \<Rightarrow> importSpec \<Rightarrow> diag list" where
  "checkImport grp parts imp = sameGroupCheck grp parts imp @ forbiddenGroupCheck grp imp"

definition checkImports :: "string \<Rightarrow> string list \<Rightarrow> importSpec list \<Rightarrow> diag list" where
  "checkImports grp parts imps = concat (map (checkImport grp parts) imps)"

subsection \<open>Rules on one node (lines 124 to 307)\<close>

definition goStmtCheck :: "token_Pos \<Rightarrow> diag list" where
  "goStmtCheck p = [(p, ''should not use raw goroutine, use goroutine pool instead'')]"

definition varSpecCheck :: "node \<Rightarrow> diag list" where
  "varSpecCheck spec =
     (case spec of
        ValueSpec p _ names _ \<Rightarrow>
          (case names of
             [] \<Rightarrow> []
           | n # _ \<Rightarrow>
               if IsExported (identName n)
               then [(p, exportedVarMessage (identName n))]
               else [])
      | _ \<Rightarrow> [])"

definition recordErrorStruct :: "node \<Rightarrow> state \<Rightarrow> state" where
  "recordErrorStruct spec st =
     (case spec of
        TypeSpec p _ name _ typ _ \<Rightarrow>
          (case typ of
             StructType _ _ \<Rightarrow>
               if IsExported (identName name) \<and> HasSuffix (identName name) ''Error''
               then st\<lparr>errorStructMap :=
                         AList.update (identName name) \<lparr>pos = p\<rparr> (errorStructMap st)\<rparr>
               else st
           | _ \<Rightarrow> st)
      | _ \<Rightarrow> st)"

definition bannedImportCheck :: "importSpec \<Rightarrow> diag list" where
  "bannedImportCheck imp =
     (case Unquote (Value (Path imp)) of
        None \<Rightarrow> []
      | Some path \<Rightarrow>
          (case map_of bannedImportPaths path of
             None \<Rightarrow> []
           | Some desc \<Rightarrow> [(impPos imp, ''should not use '' @ path @ '', '' @ desc)]))"

definition isCtxParam :: "field \<Rightarrow> bool" where
  "isCtxParam param = (case Names param of [] \<Rightarrow> False | n # _ \<Rightarrow> identName n = ''ctx'')"

definition isErrorResult :: "field \<Rightarrow> bool" where
  "isErrorResult param =
     (case fieldType param of IdentNode i \<Rightarrow> identName i = ''error'' | _ \<Rightarrow> False)"

text \<open>The operation pairs (lines 187 to 234).\<close>

definition trimVerbs :: "string \<Rightarrow> string" where
  "trimVerbs name =
     TrimPrefix (TrimPrefix (TrimPrefix (TrimPrefix (TrimPrefix (TrimPrefix name
       ''Request'') ''Reply'') ''Send'') ''Receive'') ''Publish'') ''Subscribe''"

text \<open>\<open>p := a2b[key]\<close>, with a new empty pair when the map has none.\<close>

definition getPair :: "(string \<times> Pair) list \<Rightarrow> string \<Rightarrow> Pair" where
  "getPair m key =
     (case map_of m key of None \<Rightarrow> \<lparr>First = None, Second = None\<rparr> | Some pr \<Rightarrow> pr)"

text \<open>The switch of lines 203 to 234 on the pair \<open>p\<close>.\<close>

definition populate :: "string \<Rightarrow> token_Pos \<Rightarrow> Pair \<Rightarrow> Pair" where
  "populate name p pr =
     (let reporter = \<lparr>pos = p\<rparr> in
      if HasPrefix name ''Request''
        then pr\<lparr>First := Some \<lparr>Name = ''Request'', Reporter = reporter\<rparr>\<rparr>
      else if HasPrefix name ''Reply''
        then pr\<lparr>Second := Some \<lparr>Name = ''Reply'', Reporter = reporter\<rparr>\<rparr>
      else if HasPrefix name ''Send''
        then pr\<lparr>First := Some \<lparr>Name = ''Send'', Reporter = reporter\<rparr>\<rparr>
      else if HasPrefix name ''Receive''
        then pr\<lparr>Second := Some \<lparr>Name = ''Receive'', Reporter = reporter\<rparr>\<rparr>
      else if HasPrefix name ''Publish''
        then pr\<lparr>First := Some \<lparr>Name = ''Publish'', Reporter = reporter\<rparr>\<rparr>
      else if HasPrefix name ''Subscribe''
        then pr\<lparr>Second := Some \<lparr>Name = ''Subscribe'', Reporter = reporter\<rparr>\<rparr>
      else pr)"

text \<open>The key is the name of the package clause of the file, a dot, and the trimmed name.
  The pair is stored in the map when it is new, and changed in place through the pointer:
  the map ends with the changed pair at the key.\<close>

definition pairKey :: "string \<Rightarrow> string \<Rightarrow> string" where
  "pairKey fname name = fname @ ''.'' @ trimVerbs name"

definition recordPair ::
  "string \<Rightarrow> string \<Rightarrow> token_Pos \<Rightarrow> (string \<times> Pair) list \<Rightarrow> (string \<times> Pair) list" where
  "recordPair fname name p m =
     (let key = pairKey fname name in AList.update key (populate name p (getPair m key)) m)"

text \<open>The first switch of the case for a function declaration (lines 163 to 235).\<close>

definition funcNameSwitch ::
  "string \<Rightarrow> token_Pos \<Rightarrow> string \<Rightarrow> funcType \<Rightarrow> state \<Rightarrow> error + state" where
  "funcNameSwitch fname p name typ st =
     (if HasPrefix name ''Is'' \<and> HasSuffix name ''Error'' then
        Inr (if map_of (errorCheckerMap st) name = None
             then st\<lparr>errorCheckerMap := AList.update name \<lparr>pos = p\<rparr> (errorCheckerMap st)\<rparr>
             else st)
      else if HasPrefix name ''New'' then
        (case Params typ of
           None \<Rightarrow> Inl NilPointerDereference
         | Some params \<Rightarrow>
             Inr (if list_ex isCtxParam (flList params) then st
                  else Reportf [(p, ''missing context.Context parameter'')] st))
      else Inr (st\<lparr>a2b := recordPair fname name p (a2b st)\<rparr>))"

text \<open>The loop of lines 242 to 250 stops at the first parameter named \<open>ctx\<close>; it
  answers \<open>(hasCtx, isCtxFirst)\<close>.\<close>

fun ctxLoop :: "nat \<Rightarrow> field list \<Rightarrow> bool \<times> bool" where
  "ctxLoop i [] = (False, False)"
| "ctxLoop i (param # params) =
     (if isCtxParam param then (True, i = 0) else ctxLoop (Suc i) params)"

definition ctxFirstCheck :: "token_Pos \<Rightarrow> funcType \<Rightarrow> diag list" where
  "ctxFirstCheck p typ =
     (case Params typ of
        None \<Rightarrow> []
      | Some params \<Rightarrow>
          (let (hasCtx, isCtxFirst) = ctxLoop 0 (flList params) in
           if hasCtx \<and> \<not> isCtxFirst
           then [(p, ''context.Context should be the first parameter'')]
           else []))"

text \<open>The loop of lines 262 to 270 over the results, \<open>n\<close> of them; it answers
  \<open>(hasErr, isErrLast)\<close>.\<close>

fun errLoop :: "nat \<Rightarrow> nat \<Rightarrow> field list \<Rightarrow> bool \<times> bool \<Rightarrow> bool \<times> bool" where
  "errLoop i n [] acc = acc"
| "errLoop i n (param # params) (hasErr, isErrLast) =
     errLoop (Suc i) n params
       (if isErrorResult param then (True, if Suc i = n then True else isErrLast)
        else (hasErr, isErrLast))"

definition errLastCheck :: "token_Pos \<Rightarrow> funcType \<Rightarrow> diag list" where
  "errLastCheck p typ =
     (case Results typ of
        None \<Rightarrow> []
      | Some results \<Rightarrow>
          (let (hasErr, isErrLast) =
                 errLoop 0 (length (flList results)) (flList results) (False, False) in
           if hasErr \<and> \<not> isErrLast
           then [(p, ''error should be the last return value'')]
           else []))"

definition noElseMessage :: string where
  "noElseMessage =
     ''if statement should not have an else branch, use early return or switch statement instead''"

definition elseCheck :: "node \<Rightarrow> diag list" where
  "elseCheck stmt =
     (case stmt of
        IfStmt p _ els \<Rightarrow> (case els of None \<Rightarrow> [] | Some _ \<Rightarrow> [(p, noElseMessage)])
      | _ \<Rightarrow> [])"

text \<open>Lines 278 to 288: \<open>node.Body.List\<close> is read whether or not the declaration has a
  body; on a declaration without one \<open>node.Body\<close> is \<open>nil\<close> and the read panics.\<close>

definition bodyCheck :: "blockStmt option \<Rightarrow> error + diag list" where
  "bodyCheck body =
     (case body of
        None \<Rightarrow> Inl NilPointerDereference
      | Some b \<Rightarrow> Inr (concat (map elseCheck (blockList b))))"

definition funcDeclCase ::
  "string \<Rightarrow> token_Pos \<Rightarrow> ident \<Rightarrow> funcType \<Rightarrow> blockStmt option \<Rightarrow> state \<Rightarrow> error + state" where
  "funcDeclCase fname p name typ body st =
     (case funcNameSwitch fname p (identName name) typ st of
        Inl e \<Rightarrow> Inl e
      | Inr st1 \<Rightarrow>
          (let st2 = Reportf (ctxFirstCheck p typ) st1;
               st3 = Reportf (errLastCheck p typ) st2
           in case bodyCheck body of
                Inl e \<Rightarrow> Inl e
              | Inr ds \<Rightarrow> Inr (Reportf ds st3)))"

definition returnCheck :: "token_Pos \<Rightarrow> node \<Rightarrow> diag list" where
  "returnCheck p result =
     (case result of
        IdentNode i \<Rightarrow>
          if identName i = ''err''
          then [(p, ''should not return error, use fmt.Errorf instead'')]
          else []
      | _ \<Rightarrow> [])"

definition makeCheck :: "token_Pos \<Rightarrow> node \<Rightarrow> node list \<Rightarrow> diag list" where
  "makeCheck p fn args =
     (case fn of
        IdentNode i \<Rightarrow>
          if identName i = ''make'' \<and> length args < 2
          then [(p, ''make function should be called with 2 arguments'')]
          else []
      | _ \<Rightarrow> [])"

text \<open>The type switch of lines 124 to 307.\<close>

definition typeSwitch :: "astFile \<Rightarrow> node option \<Rightarrow> state \<Rightarrow> error + state" where
  "typeSwitch f node st =
     (case node of
        Some (GoStmt p _) \<Rightarrow> Inr (Reportf (goStmtCheck p) st)
      | Some (GenDecl _ _ tok specs) \<Rightarrow>
          (case tok of
             tokVAR \<Rightarrow> Inr (Reportf (concat (map varSpecCheck specs)) st)
           | tokTYPE \<Rightarrow> Inr (fold recordErrorStruct specs st)
           | _ \<Rightarrow> Inr st)
      | Some (ImportSpecNode imp) \<Rightarrow> Inr (Reportf (bannedImportCheck imp) st)
      | Some (FuncDecl p _ _ name typ body) \<Rightarrow>
          funcDeclCase (identName (fileName f)) p name typ body st
      | Some (ReturnStmt p results) \<Rightarrow> Inr (Reportf (concat (map (returnCheck p) results)) st)
      | Some (CallExpr p fn args) \<Rightarrow> Inr (Reportf (makeCheck p fn args) st)
      | _ \<Rightarrow> Inr st)"

text \<open>The function handed to \<open>ast.Inspect\<close> (lines 81 to 310).\<close>

definition callback :: "string \<Rightarrow> astFile \<Rightarrow> node option \<Rightarrow> state \<Rightarrow> error + state" where
  "callback packagePath f node st =
     (let (grp, parts) = splitPackagePath packagePath in
      case checkPackageName parts node of
        Inl e \<Rightarrow> Inl e
      | Inr ds \<Rightarrow>
          typeSwitch f node (Reportf (checkImports grp parts (Imports f)) (Reportf ds st)))"

subsection \<open>The run (lines 72 to 362)\<close>

fun visitAll :: "(node option \<Rightarrow> state \<Rightarrow> error + state) \<Rightarrow> node option list \<Rightarrow> state
    \<Rightarrow> error + state" where
  "visitAll fn [] st = Inr st"
| "visitAll fn (n # ns) st =
     (case fn n st of
        Inl e \<Rightarrow> Inl e
      | Inr st' \<Rightarrow> visitAll fn ns st')"

definition Inspect :: "astFile \<Rightarrow> (node option \<Rightarrow> state \<Rightarrow> error + state) \<Rightarrow> state
    \<Rightarrow> error + state" where
  "Inspect f fn st = visitAll fn (walkFile f) st"

fun analyzeFiles :: "string \<Rightarrow> astFile list \<Rightarrow> state \<Rightarrow> error + state" where
  "analyzeFiles packagePath [] st = Inr st"
| "analyzeFiles packagePath (f # fs) st =
     (case Inspect f (callback packagePath f) st of
        Inl e \<Rightarrow> Inl e
      | Inr st' \<Rightarrow> analyzeFiles packagePath fs st')"

text \<open>The loop of lines 313 to 319 over the recorded structs; it reports and deletes
  from the map of the checkers.\<close>

fun structLoop :: "(string \<times> Reporter) list \<Rightarrow> (string \<times> Reporter) list
    \<Rightarrow> diag list \<times> (string \<times> Reporter) list" where
  "structLoop [] checkers = ([], checkers)"
| "structLoop ((e, r) # es) checkers =
     (let c = ''Is'' @ e;
          ds = (if map_of checkers c = None then [(pos r, missingFunctionMessage c)] else []);
          (ds', checkers') = structLoop es (AList.delete c checkers)
      in (ds @ ds', checkers'))"

text \<open>The loop of lines 320 to 325 over the checkers that are left.\<close>

definition checkerReport :: "(string \<times> Reporter) list \<Rightarrow> string \<times> Reporter \<Rightarrow> diag list" where
  "checkerReport structs cr =
     (let e = TrimPrefix (fst cr) ''Is'' in
      if map_of structs e = None then [(pos (snd cr), missingStructMessage e)] else [])"

definition checkerLoop :: "(string \<times> Reporter) list \<Rightarrow> (string \<times> Reporter) list \<Rightarrow> diag list" where
  "checkerLoop structs checkers = concat (map (checkerReport structs) checkers)"

definition reconcileErrors ::
  "(string \<times> Reporter) list \<Rightarrow> (string \<times> Reporter) list \<Rightarrow> diag list" where
  "reconcileErrors structs checkers =
     (let (ds, checkers') = structLoop structs checkers
      in ds @ checkerLoop structs checkers')"

text \<open>The loop of lines 327 to 359 over the pairs.\<close>

definition firstOpposite :: "string \<Rightarrow> string" where
  "firstOpposite name =
     (if name = ''Request'' then ''Reply''
      else if name = ''Send'' then ''Receive''
      else if name = ''Publish'' then ''Subscribe''
      else if name = ''Set'' then ''Get''
      else ''unknown'')"

definition secondOpposite :: "string \<Rightarrow> string" where
  "secondOpposite name =
     (if name = ''Reply'' then ''Request''
      else if name = ''Receive'' then ''Send''
      else if name = ''Subscribe'' then ''Publish''
      else if name = ''Get'' then ''Set''
      else ''unknown'')"

definition pairReport :: "Pair \<Rightarrow> diag list" where
  "pairReport pair =
     (case (First pair, Second pair) of
        (Some el, None) \<Rightarrow>
          [(pos (Reporter el), missingFunctionMessage (firstOpposite (Name el)))]
      | (None, Some el) \<Rightarrow>
          [(pos (Reporter el), missingFunctionMessage (secondOpposite (Name el)))]
      | _ \<Rightarrow> [])"

definition reconcilePairs :: "(string \<times> Pair) list \<Rightarrow> diag list" where
  "reconcilePairs m = concat (map (\<lambda>kv. pairReport (snd kv)) m)"

text \<open>The function that \<open>runAnalyzer\<close> returns, applied to a pass with the package
  path \<open>pass.Pkg.Path()\<close> and the files \<open>pass.Files\<close>. The run returns the pair
  \<open>nil, nil\<close>; its result is the list of the diagnostics reported, or the panic.\<close>

definition runAnalyzer :: "string \<Rightarrow> astFile list \<Rightarrow> error + diag list" where
  "runAnalyzer packagePath files =
     (case analyzeFiles packagePath files initState of
        Inl e \<Rightarrow> Inl e
      | Inr st \<Rightarrow>
          Inr (reports st @ reconcileErrors (errorStructMap st) (errorCheckerMap st)
                 @ reconcilePairs (a2b st)))"

section \<open>Notions for the statements\<close>

text \<open>The report of the loop over the structs for one entry, read against the map of the
  checkers as it is before the loop.\<close>

definition structReport :: "(string \<times> Reporter) list \<Rightarrow> string \<times> Reporter \<Rightarrow> diag list" where
  "structReport checkers er =
     (if map_of checkers (''Is'' @ fst er) = None
      then [(pos (snd er), missingFunctionMessage (''Is'' @ fst er))] else [])"



text \<open>The function declarations that reach the default case of the first switch, each
  with the name of the package clause of its file, its name and its position, recorded
  one after the other.\<close>

definition recordPairs ::
  "(string \<times> string \<times> token_Pos) list \<Rightarrow> (string \<times> Pair) list \<Rightarrow> (string \<times> Pair) list" where
  "recordPairs decls m = fold (\<lambda>(fname, name, p). recordPair fname name p) decls m"




text \<open>The diagnostics that one call of the callback reports when it does not panic, and
  the declaration that it hands to the registry of the pairs.\<close>

definition funcNameReports :: "token_Pos \<Rightarrow> string \<Rightarrow> funcType \<Rightarrow> diag list" where
  "funcNameReports p name typ =
     (if HasPrefix name ''Is'' \<and> HasSuffix name ''Error'' then []
      else if HasPrefix name ''New'' then
        (case Params typ of
           None \<Rightarrow> []
         | Some params \<Rightarrow>
             if list_ex isCtxParam (flList params) then []
             else [(p, ''missing context.Context parameter'')])
      else [])"

definition nodeReports :: "node option \<Rightarrow> diag list" where
  "nodeReports node =
     (case node of
        Some (GoStmt p _) \<Rightarrow> goStmtCheck p
      | Some (GenDecl _ _ tok specs) \<Rightarrow>
          (case tok of tokVAR \<Rightarrow> concat (map varSpecCheck specs) | _ \<Rightarrow> [])
      | Some (ImportSpecNode imp) \<Rightarrow> bannedImportCheck imp
      | Some (FuncDecl p _ _ name typ body) \<Rightarrow>
          funcNameReports p (identName name) typ @ ctxFirstCheck p typ @ errLastCheck p typ
            @ (case body of None \<Rightarrow> [] | Some b \<Rightarrow> concat (map elseCheck (blockList b)))
      | Some (ReturnStmt p results) \<Rightarrow> concat (map (returnCheck p) results)
      | Some (CallExpr p fn args) \<Rightarrow> makeCheck p fn args
      | _ \<Rightarrow> [])"

definition visitReports :: "string \<Rightarrow> astFile \<Rightarrow> node option \<Rightarrow> diag list" where
  "visitReports packagePath f node =
     (let (grp, parts) = splitPackagePath packagePath in
      (case checkPackageName parts node of Inl _ \<Rightarrow> [] | Inr ds \<Rightarrow> ds)
        @ checkImports grp parts (Imports f) @ nodeReports node)"

definition pairDecls :: "astFile \<Rightarrow> node option \<Rightarrow> (string \<times> string \<times> token_Pos) list" where
  "pairDecls f node =
     (case node of
        Some (FuncDecl p _ _ name _ _) \<Rightarrow>
          if (HasPrefix (identName name) ''Is'' \<and> HasSuffix (identName name) ''Error'')
             \<or> HasPrefix (identName name) ''New''
          then [] else [(identName (fileName f), identName name, p)]
      | _ \<Rightarrow> [])"

text \<open>The interpreted string literal of a path that needs no escape sequence.\<close>

definition quoted :: "string \<Rightarrow> string" where
  "quoted path = CHR 0x22 # path @ [CHR 0x22]"

text \<open>The diagnostics of the traversal of one file, and the declarations that it hands
  to the registry of the pairs.\<close>

definition fileReports :: "string \<Rightarrow> astFile \<Rightarrow> diag list" where
  "fileReports packagePath f = concat (map (visitReports packagePath f) (walkFile f))"

definition filePairDecls :: "astFile \<Rightarrow> (string \<times> string \<times> token_Pos) list" where
  "filePairDecls f = concat (map (pairDecls f) (walkFile f))"

text \<open>What the traversal keeps true of the two maps of the error contracts.\<close>

definition registryInv :: "state \<Rightarrow> bool" where
  "registryInv st \<longleftrightarrow>
     distinct (map fst (errorStructMap st)) \<and> distinct (map fst (errorCheckerMap st)) \<and>
     list_all (\<lambda>cr. HasPrefix (fst cr) ''Is'') (errorCheckerMap st)"


section \<open>Example inputs\<close>

definition exStructs :: "(string \<times> Reporter) list" where
  "exStructs = [(''ParseError'', \<lparr>pos = 65\<rparr>), (''IOError'', \<lparr>pos = 70\<rparr>)]"

definition exCheckers :: "(string \<times> Reporter) list" where
  "exCheckers = [(''IsIOError'', \<lparr>pos = 80\<rparr>), (''IsFooError'', \<lparr>pos = 90\<rparr>)]"

definition exDecls :: "(string \<times> string \<times> token_Pos) list" where
  "exDecls = [(''svc'', ''RequestUser'', 10), (''svc'', ''SendOrder'', 20),
              (''svc'', ''ReceiveItem'', 30), (''svc'', ''PublishItem'', 40)]"

definition exNestedElseFile :: astFile where
  "exNestedElseFile =
     File 1 None (Ident 9 ''a'')
       [FuncDecl 20 None None (Ident 25 ''run'') (FuncType 20 None (Some (FieldList 28 [])) None)
          (Some (BlockStmt 31
             [Other 33
                [BlockStmtNode (BlockStmt 37
                   [IfStmt 39 [IdentNode (Ident 42 ''c''), BlockStmtNode (BlockStmt 44 [])]
                      (Some (BlockStmtNode (BlockStmt 52 [])))])],
              IfStmt 60 [IdentNode (Ident 63 ''d''), BlockStmtNode (BlockStmt 65 [])]
                 (Some (BlockStmtNode (BlockStmt 73 [])))]))]
       []"

definition exNestedIf :: node where
  "exNestedIf =
     IfStmt 39 [IdentNode (Ident 42 ''c''), BlockStmtNode (BlockStmt 44 [])]
       (Some (BlockStmtNode (BlockStmt 52 [])))"


definition exImport :: "string \<Rightarrow> importSpec" where
  "exImport path = ImportSpec 18 None None (BasicLit 18 (quoted path)) None"

definition exImportFile :: "string \<Rightarrow> astFile" where
  "exImportFile path =
     File 1 None (Ident 9 ''a'') [GenDecl 11 None tokIMPORT [ImportSpecNode (exImport path)]]
       [exImport path]"

definition exBodylessFile :: astFile where
  "exBodylessFile =
     File 1 None (Ident 9 ''a'')
       [FuncDecl 20 None None (Ident 25 ''run'') (FuncType 20 None (Some (FieldList 28 [])) None)
          None]
       []"

definition exErrorFile :: astFile where
  "exErrorFile =
     File 1 None (Ident 9 ''a'')
       [GenDecl 11 None tokTYPE
          [TypeSpec 16 None (Ident 16 ''ParseError'') [] (StructType 27 []) None],
        GenDecl 40 None tokTYPE
          [TypeSpec 45 None (Ident 45 ''IOError'') [] (StructType 53 []) None],
        FuncDecl 70 None None (Ident 75 ''IsIOError'')
          (FuncType 70 None (Some (FieldList 84 [])) None) (Some (BlockStmt 87 [])),
        FuncDecl 100 None None (Ident 105 ''IsFooError'')
          (FuncType 100 None (Some (FieldList 115 [])) None) (Some (BlockStmt 118 []))]
       []"

definition exErrorState :: state where
  "exErrorState =
     \<lparr>reports = [], a2b = [],
      errorStructMap = [(''ParseError'', \<lparr>pos = 16\<rparr>), (''IOError'', \<lparr>pos = 45\<rparr>)],
      errorCheckerMap = [(''IsIOError'', \<lparr>pos = 70\<rparr>), (''IsFooError'', \<lparr>pos = 100\<rparr>)]\<rparr>"

definition exErrorDiags :: "diag list" where
  "exErrorDiags =
     [(16, missingFunctionMessage ''IsParseError''), (100, missingStructMessage ''FooError'')]"

section \<open>Properties\<close>

subsection \<open>Strings\<close>

lemma Split_nonempty: "Split s sep \<noteq> []"
  by (induction s) (auto split: list.splits)

lemma Split_no_sep: "sep \<notin> set s \<Longrightarrow> Split s sep = [s]"
  by (induction s) auto

lemma Split_append_sep:
  "sep \<notin> set a \<Longrightarrow> Split (a @ sep # rest) sep = a # Split rest sep"
  by (induction a) auto

lemma length_Split: "length (Split s sep) = Suc (count_list s sep)"
  by (induction s) (auto split: list.splits)

lemma HasPrefix_iff: "HasPrefix s pre \<longleftrightarrow> (\<exists>t. s = pre @ t)"
  unfolding HasPrefix_def
  by (metis append_eq_conv_conj append_take_drop_id length_append le_add1)

lemma TrimPrefix_append: "TrimPrefix (pre @ t) pre = t"
  by (simp add: TrimPrefix_def HasPrefix_def)

subsection \<open>The path classifier\<close>

lemma splitPackagePath_one:
  "CHR ''/'' \<notin> set path \<Longrightarrow> splitPackagePath path = ('''', [path])"
  by (simp add: splitPackagePath_def Split_no_sep)

lemma splitPackagePath_two:
  "CHR ''/'' \<notin> set a \<Longrightarrow> CHR ''/'' \<notin> set b \<Longrightarrow> splitPackagePath (a @ ''/'' @ b) = (a, [b])"
  using Split_append_sep [of "CHR ''/''" a b]
  by (simp add: splitPackagePath_def Split_no_sep)

lemma splitPackagePath_more:
  "CHR ''/'' \<notin> set a \<Longrightarrow> CHR ''/'' \<notin> set b \<Longrightarrow>
     splitPackagePath (a @ ''/'' @ b @ ''/'' @ rest) = (b, Split rest CHR ''/'')"
  using Split_append_sep [of "CHR ''/''" a "b @ ''/'' @ rest"]
    Split_append_sep [of "CHR ''/''" b rest] Split_nonempty [of rest "CHR ''/''"]
  by (cases "Split rest CHR ''/''") (simp_all add: splitPackagePath_def)

text \<open>
  Claim C1. For every package path: when the split on the separator gives fewer than two
  segments, the classifier answers the empty group and all the segments; when it gives the
  two segments \<open>[a, b]\<close>, the group \<open>a\<close> and the remainder \<open>[b]\<close>; when it gives three
  segments or more, \<open>a # b # c # rest\<close>, the group \<open>b\<close> and the remainder \<open>c # rest\<close>.
  On the path itself: a path without a separator gives the empty group and the path; a
  path \<open>a/b\<close> gives \<open>a\<close> and \<open>[b]\<close>; a path \<open>a/b/rest\<close> gives \<open>b\<close> and the
  segments of \<open>rest\<close> (\<open>a\<close> and \<open>b\<close> without a separator).
\<close>

theorem splitPackagePath_cases:
  "(length (Split path CHR ''/'') < 2 \<longrightarrow>
      splitPackagePath path = ('''', Split path CHR ''/'')) \<and>
   (\<forall>a b. Split path CHR ''/'' = [a, b] \<longrightarrow> splitPackagePath path = (a, [b])) \<and>
   (\<forall>a b c rest. Split path CHR ''/'' = a # b # c # rest \<longrightarrow>
      splitPackagePath path = (b, c # rest)) \<and>
   (CHR ''/'' \<notin> set path \<longrightarrow> splitPackagePath path = ('''', [path])) \<and>
   (\<forall>a b. CHR ''/'' \<notin> set a \<and> CHR ''/'' \<notin> set b \<longrightarrow>
      splitPackagePath (a @ ''/'' @ b) = (a, [b])) \<and>
   (\<forall>a b rest. CHR ''/'' \<notin> set a \<and> CHR ''/'' \<notin> set b \<longrightarrow>
      splitPackagePath (a @ ''/'' @ b @ ''/'' @ rest) = (b, Split rest CHR ''/''))"
  using splitPackagePath_one [of path] splitPackagePath_two splitPackagePath_more
  by (simp add: splitPackagePath_def)

theorem splitPackagePath_cases_witness:
  "length (Split ''main'' CHR ''/'') < 2 \<and> splitPackagePath ''main'' = ('''', [''main'']) \<and>
   Split ''lib/client'' CHR ''/'' = [''lib'', ''client''] \<and>
   splitPackagePath ''lib/client'' = (''lib'', [''client'']) \<and>
   Split ''proj/lib/client/http'' CHR ''/'' = [''proj'', ''lib'', ''client'', ''http''] \<and>
   splitPackagePath ''proj/lib/client/http'' = (''lib'', [''client'', ''http''])"
proof -
  have s1: "Split ''main'' CHR ''/'' = [''main'']" by simp
  have s2: "Split ''lib/client'' CHR ''/'' = [''lib'', ''client'']" by simp
  have s3: "Split ''proj/lib/client/http'' CHR ''/'' = [''proj'', ''lib'', ''client'', ''http'']"
    by simp
  show ?thesis
    using splitPackagePath_cases [of "''main''"] splitPackagePath_cases [of "''lib/client''"]
      splitPackagePath_cases [of "''proj/lib/client/http''"] s1 s2 s3
    by simp
qed

subsection \<open>The registry of the error contracts\<close>

lemma function_ne_struct: "missingFunctionMessage a \<noteq> missingStructMessage b"
proof
  assume "missingFunctionMessage a = missingStructMessage b"
  then have "last (missingFunctionMessage a) = last (missingStructMessage b)" by simp
  then show False by (simp add: missingFunctionMessage_def missingStructMessage_def)
qed

lemma missingFunctionMessage_inj: "missingFunctionMessage a = missingFunctionMessage b \<longleftrightarrow> a = b"
  by (simp add: missingFunctionMessage_def)

lemma missingStructMessage_inj: "missingStructMessage a = missingStructMessage b \<longleftrightarrow> a = b"
  by (simp add: missingStructMessage_def)

lemma count_list_concat_map:
  "count_list (concat (map f xs)) d = sum_list (map (\<lambda>x. count_list (f x) d) xs)"
  by (induction xs) auto

lemma sum_list_zero: "(\<And>y. y \<in> set xs \<Longrightarrow> g y = (0::nat)) \<Longrightarrow> sum_list (map g xs) = 0"
  by (induction xs) auto

lemma sum_list_single:
  assumes "distinct xs" "x \<in> set xs" "\<And>y. y \<in> set xs \<Longrightarrow> y \<noteq> x \<Longrightarrow> g y = (0::nat)"
  shows "sum_list (map g xs) = g x"
  using assms
proof (induction xs)
  case Nil
  then show ?case by simp
next
  case (Cons a xs)
  show ?case
  proof (cases "a = x")
    case True
    then have "x \<notin> set xs" using Cons.prems(1) by simp
    then have "\<And>y. y \<in> set xs \<Longrightarrow> g y = 0" using Cons.prems(3) by auto
    then have "sum_list (map g xs) = 0" by (rule sum_list_zero)
    then show ?thesis using True by simp
  next
    case False
    then have "g a = 0" using Cons.prems(3) by simp
    moreover have "sum_list (map g xs) = g x"
      using Cons.IH Cons.prems False by auto
    ultimately show ?thesis by simp
  qed
qed

lemma alist_unique:
  "distinct (map fst xs) \<Longrightarrow> (k, v) \<in> set xs \<Longrightarrow> (k, v') \<in> set xs \<Longrightarrow> v = v'"
  by (metis map_of_is_SomeI option.inject)

lemma alist_entry_eq:
  assumes "distinct (map fst xs)" "(k, v) \<in> set xs" "y \<in> set xs" "fst y = k"
  shows "y = (k, v)"
proof -
  have "(k, snd y) \<in> set xs" using assms(3,4) by (metis prod.collapse)
  then have "snd y = v" using alist_unique [OF assms(1) _ assms(2)] by blast
  then show ?thesis using assms(4) by (metis prod.collapse)
qed

lemma HasPrefix_TrimPrefix: "HasPrefix c pre \<Longrightarrow> pre @ TrimPrefix c pre = c"
  by (auto simp: HasPrefix_iff TrimPrefix_append)

lemma structLoop_Cons:
  "structLoop ((e, r) # es) cm =
     (structReport cm (e, r) @ fst (structLoop es (AList.delete (''Is'' @ e) cm)),
      snd (structLoop es (AList.delete (''Is'' @ e) cm)))"
  by (simp add: Let_def split_beta structReport_def)

lemma structLoop_snd:
  "snd (structLoop es cm) = filter (\<lambda>cr. fst cr \<notin> (\<lambda>e. ''Is'' @ e) ` fst ` set es) cm"
proof (induction es arbitrary: cm)
  case Nil
  then show ?case by simp
next
  case (Cons a es)
  obtain e r where a: "a = (e, r)" by (cases a)
  have "filter (\<lambda>cr. fst cr \<notin> (\<lambda>e. ''Is'' @ e) ` fst ` set es) (AList.delete (''Is'' @ e) cm)
      = filter (\<lambda>cr. fst cr \<notin> (\<lambda>e. ''Is'' @ e) ` fst ` set (a # es)) cm"
    unfolding AList.delete_eq filter_filter a
    by (rule filter_cong) auto
  then show ?case
    unfolding a structLoop_Cons using Cons.IH by (simp del: structLoop.simps)
qed

lemma structLoop_fst:
  "distinct (map fst es) \<Longrightarrow> fst (structLoop es cm) = concat (map (structReport cm) es)"
proof (induction es arbitrary: cm)
  case Nil
  then show ?case by simp
next
  case (Cons a es)
  obtain e r where a: "a = (e, r)" by (cases a)
  from Cons.prems have d: "distinct (map fst es)" and ne: "e \<notin> fst ` set es"
    by (auto simp: a)
  have "map (structReport (AList.delete (''Is'' @ e) cm)) es = map (structReport cm) es"
  proof (rule map_cong [OF refl])
    fix x assume "x \<in> set es"
    then have "fst x \<noteq> e" using ne by auto
    then show "structReport (AList.delete (''Is'' @ e) cm) x = structReport cm x"
      by (simp add: structReport_def)
  qed
  then have "concat (map (structReport (AList.delete (''Is'' @ e) cm)) es)
      = concat (map (structReport cm) es)"
    by (rule arg_cong)
  then show ?case
    unfolding a structLoop_Cons using Cons.IH [OF d] by (simp del: structLoop.simps)
qed

lemma reconcileErrors_eq:
  "distinct (map fst structs) \<Longrightarrow>
   reconcileErrors structs checkers =
     concat (map (structReport checkers) structs)
     @ concat (map (checkerReport structs)
         (filter (\<lambda>cr. fst cr \<notin> (\<lambda>e. ''Is'' @ e) ` fst ` set structs) checkers))"
  using structLoop_fst [of structs checkers] structLoop_snd [of structs checkers]
  by (simp add: reconcileErrors_def checkerLoop_def split_beta)

lemma count_structReport:
  "count_list (structReport cm er) (p, missingFunctionMessage c) =
     (if ''Is'' @ fst er = c \<and> pos (snd er) = p \<and> map_of cm c = None then 1 else 0)"
  by (auto simp: structReport_def missingFunctionMessage_inj)

lemma count_structReport_struct:
  "count_list (structReport cm er) (p, missingStructMessage e) = 0"
  by (simp add: structReport_def function_ne_struct)

lemma count_checkerReport_function:
  "count_list (checkerReport sm cr) (p, missingFunctionMessage c) = 0"
  using function_ne_struct [of c] by (auto simp: checkerReport_def Let_def)

lemma count_checkerReport:
  "count_list (checkerReport sm cr) (p, missingStructMessage e) =
     (if TrimPrefix (fst cr) ''Is'' = e \<and> pos (snd cr) = p \<and> map_of sm e = None then 1 else 0)"
  by (auto simp: checkerReport_def Let_def missingStructMessage_inj)

lemma count_struct_side:
  assumes ds: "distinct (map fst structs)"
    and e: "map_of structs e = Some r"
  shows "count_list (reconcileErrors structs checkers) (p, missingFunctionMessage (''Is'' @ e)) =
         (if pos r = p \<and> map_of checkers (''Is'' @ e) = None then 1 else 0)"
proof -
  let ?d = "(p, missingFunctionMessage (''Is'' @ e))"
  let ?g = "\<lambda>er. count_list (structReport checkers er) ?d"
  let ?cs = "filter (\<lambda>cr. fst cr \<notin> (\<lambda>e. ''Is'' @ e) ` fst ` set structs) checkers"
  have mem: "(e, r) \<in> set structs" using e by (rule map_of_SomeD)
  have dist: "distinct structs" using ds by (rule distinct_map [THEN iffD1, THEN conjunct1])
  have other: "?g y = 0" if "y \<in> set structs" "y \<noteq> (e, r)" for y
  proof -
    have "fst y \<noteq> e" using alist_entry_eq [OF ds mem that(1)] that(2) by blast
    then show ?thesis unfolding count_structReport by simp
  qed
  have "sum_list (map ?g structs) = ?g (e, r)"
    using dist mem other by (rule sum_list_single)
  also have "\<dots> = (if pos r = p \<and> map_of checkers (''Is'' @ e) = None then 1 else 0)"
    unfolding count_structReport by simp
  finally have a: "sum_list (map ?g structs) =
      (if pos r = p \<and> map_of checkers (''Is'' @ e) = None then 1 else 0)" .
  have b: "sum_list (map (\<lambda>cr. count_list (checkerReport structs cr) ?d) ?cs) = 0"
    by (rule sum_list_zero) (rule count_checkerReport_function)
  show ?thesis
    unfolding reconcileErrors_eq [OF ds] count_list_append count_list_concat_map a b by simp
qed

lemma count_struct_side_struct:
  assumes ds: "distinct (map fst structs)"
    and e: "map_of structs e = Some r"
  shows "count_list (reconcileErrors structs checkers) (p, missingStructMessage e) = 0"
proof -
  let ?d = "(p, missingStructMessage e)"
  let ?cs = "filter (\<lambda>cr. fst cr \<notin> (\<lambda>e. ''Is'' @ e) ` fst ` set structs) checkers"
  have a: "sum_list (map (\<lambda>er. count_list (structReport checkers er) ?d) structs) = 0"
    by (rule sum_list_zero) (rule count_structReport_struct)
  have b: "sum_list (map (\<lambda>cr. count_list (checkerReport structs cr) ?d) ?cs) = 0"
    by (rule sum_list_zero) (simp add: count_checkerReport e)
  show ?thesis
    unfolding reconcileErrors_eq [OF ds] count_list_append count_list_concat_map a b by simp
qed

lemma count_checker_side:
  assumes ds: "distinct (map fst structs)"
    and dc: "distinct (map fst checkers)"
    and pre: "\<forall>c \<in> fst ` set checkers. HasPrefix c ''Is''"
    and c: "map_of checkers c = Some r"
    and none: "map_of structs (TrimPrefix c ''Is'') = None"
  shows "count_list (reconcileErrors structs checkers)
           (pos r, missingStructMessage (TrimPrefix c ''Is'')) = 1"
proof -
  let ?e = "TrimPrefix c ''Is''"
  let ?d = "(pos r, missingStructMessage ?e)"
  let ?cs = "filter (\<lambda>cr. fst cr \<notin> (\<lambda>e. ''Is'' @ e) ` fst ` set structs) checkers"
  let ?g = "\<lambda>cr. count_list (checkerReport structs cr) ?d"
  have mem: "(c, r) \<in> set checkers" using c by (rule map_of_SomeD)
  then have "HasPrefix c ''Is''" using pre by force
  then have cpre: "''Is'' @ ?e = c" by (rule HasPrefix_TrimPrefix)
  have notin: "?e \<notin> fst ` set structs" using none by (simp add: map_of_eq_None_iff)
  have "c \<notin> (\<lambda>e. ''Is'' @ e) ` fst ` set structs"
  proof
    assume "c \<in> (\<lambda>e. ''Is'' @ e) ` fst ` set structs"
    then obtain e' where e': "e' \<in> fst ` set structs" "c = ''Is'' @ e'" by auto
    have "?e = e'" unfolding e'(2) by (rule TrimPrefix_append)
    then show False using notin e'(1) by simp
  qed
  then have mem': "(c, r) \<in> set ?cs" using mem by simp
  have dist: "distinct ?cs"
    using dc by (intro distinct_filter) (rule distinct_map [THEN iffD1, THEN conjunct1])
  have other: "?g y = 0" if "y \<in> set ?cs" "y \<noteq> (c, r)" for y
  proof -
    have y: "y \<in> set checkers" using that(1) by simp
    have "TrimPrefix (fst y) ''Is'' \<noteq> ?e"
    proof
      assume eq: "TrimPrefix (fst y) ''Is'' = ?e"
      have "HasPrefix (fst y) ''Is''" using pre y by force
      then have "''Is'' @ TrimPrefix (fst y) ''Is'' = fst y" by (rule HasPrefix_TrimPrefix)
      then have "fst y = c" using eq cpre by simp
      then show False using alist_entry_eq [OF dc mem y] that(2) by blast
    qed
    then show ?thesis unfolding count_checkerReport by simp
  qed
  have "sum_list (map ?g ?cs) = ?g (c, r)"
    using dist mem' other by (rule sum_list_single)
  also have "\<dots> = 1" unfolding count_checkerReport using none by simp
  finally have b: "sum_list (map ?g ?cs) = 1" .
  have a: "sum_list (map (\<lambda>er. count_list (structReport checkers er) ?d) structs) = 0"
    by (rule sum_list_zero) (rule count_structReport_struct)
  show ?thesis
    unfolding reconcileErrors_eq [OF ds] count_list_append count_list_concat_map a b by simp
qed

text \<open>
  The reconciliation of lines 313 to 325, for any two maps with distinct keys, in any order of
  their entries, when the name of every checker starts with \<open>Is\<close>: a struct \<open>e\<close>
  without the checker \<open>Is\<close>\<open>e\<close> is reported exactly once, at its position; a struct
  with its checker is not reported; no struct of the map is reported as missing; a checker
  whose name without \<open>Is\<close> is no struct of the map is reported exactly once, at its
  position.
\<close>

lemma reconcileErrors_counts:
  assumes "distinct (map fst structs)"
    and "distinct (map fst checkers)"
    and "\<forall>c \<in> fst ` set checkers. HasPrefix c ''Is''"
  shows "(\<forall>e r. map_of structs e = Some r \<longrightarrow>
            (map_of checkers (''Is'' @ e) = None \<longrightarrow>
               count_list (reconcileErrors structs checkers)
                 (pos r, missingFunctionMessage (''Is'' @ e)) = 1) \<and>
            (map_of checkers (''Is'' @ e) \<noteq> None \<longrightarrow>
               (\<forall>p. count_list (reconcileErrors structs checkers)
                     (p, missingFunctionMessage (''Is'' @ e)) = 0)) \<and>
            (\<forall>p. count_list (reconcileErrors structs checkers)
                  (p, missingStructMessage e) = 0)) \<and>
         (\<forall>c r. map_of checkers c = Some r \<longrightarrow>
            map_of structs (TrimPrefix c ''Is'') = None \<longrightarrow>
            count_list (reconcileErrors structs checkers)
              (pos r, missingStructMessage (TrimPrefix c ''Is'')) = 1)"
proof (intro conjI allI impI)
  fix e r assume "map_of structs e = Some r" "map_of checkers (''Is'' @ e) = None"
  then show "count_list (reconcileErrors structs checkers)
      (pos r, missingFunctionMessage (''Is'' @ e)) = 1"
    using count_struct_side [OF assms(1), of e r checkers "pos r"] by simp
next
  fix e r p assume "map_of structs e = Some r" "map_of checkers (''Is'' @ e) \<noteq> None"
  then show "count_list (reconcileErrors structs checkers)
      (p, missingFunctionMessage (''Is'' @ e)) = 0"
    using count_struct_side [OF assms(1), of e r checkers p] by simp
next
  fix e r p assume "map_of structs e = Some r"
  then show "count_list (reconcileErrors structs checkers) (p, missingStructMessage e) = 0"
    by (rule count_struct_side_struct [OF assms(1)])
next
  fix c r assume "map_of checkers c = Some r" "map_of structs (TrimPrefix c ''Is'') = None"
  then show "count_list (reconcileErrors structs checkers)
      (pos r, missingStructMessage (TrimPrefix c ''Is'')) = 1"
    by (rule count_checker_side [OF assms])
qed

lemma reconcileErrors_counts_example:
  "reconcileErrors exStructs exCheckers =
     [(65, ''missing IsParseError function''), (90, ''missing FooError struct'')] \<and>
   count_list (reconcileErrors exStructs exCheckers) (65, ''missing IsParseError function'') = 1 \<and>
   count_list (reconcileErrors exStructs exCheckers) (70, ''missing IsIOError function'') = 0 \<and>
   count_list (reconcileErrors exStructs exCheckers) (80, ''missing IOError struct'') = 0 \<and>
   count_list (reconcileErrors exStructs exCheckers) (90, ''missing FooError struct'') = 1"
proof -
  have h1: "distinct (map fst exStructs)" by (simp add: exStructs_def)
  have h2: "distinct (map fst exCheckers)" by (simp add: exCheckers_def)
  have h3: "\<forall>c \<in> fst ` set exCheckers. HasPrefix c ''Is''"
    by (simp add: exCheckers_def HasPrefix_def)
  have ev: "reconcileErrors exStructs exCheckers =
     [(65, ''missing IsParseError function''), (90, ''missing FooError struct'')]"
    by (simp add: reconcileErrors_def exStructs_def exCheckers_def checkerLoop_def
          checkerReport_def TrimPrefix_def HasPrefix_def AList.delete_eq
          missingFunctionMessage_def missingStructMessage_def)
  show ?thesis
    using reconcileErrors_counts [OF h1 h2 h3] ev
    by simp
qed

subsection \<open>The registry of the operation pairs\<close>




lemma map_of_recordPair_other:
  "k \<noteq> pairKey fname name \<Longrightarrow> map_of (recordPair fname name p m) k = map_of m k"
  by (simp add: recordPair_def Let_def update_conv')

lemma getPair_recordPair_other:
  "k \<noteq> pairKey fname name \<Longrightarrow> getPair (recordPair fname name p m) k = getPair m k"
  by (simp add: getPair_def map_of_recordPair_other)

lemma getPair_recordPair_same:
  "getPair (recordPair fname name p m) (pairKey fname name) =
     populate name p (getPair m (pairKey fname name))"
  by (simp add: recordPair_def Let_def getPair_def update_conv')

lemma getPair_recordPair:
  "getPair (recordPair fname name p m) k =
     (if k = pairKey fname name then populate name p (getPair m k) else getPair m k)"
  by (simp add: getPair_recordPair_other getPair_recordPair_same)

lemma distinct_recordPair:
  "distinct (map fst m) \<Longrightarrow> distinct (map fst (recordPair fname name p m))"
  by (simp add: recordPair_def Let_def distinct_update)

lemma recordPairs_Nil: "recordPairs [] m = m"
  by (simp add: recordPairs_def)

lemma recordPairs_snoc:
  "recordPairs (ds @ [d]) m = recordPair (fst d) (fst (snd d)) (snd (snd d)) (recordPairs ds m)"
  by (simp add: recordPairs_def split_beta)

lemma distinct_recordPairs:
  "distinct (map fst m) \<Longrightarrow> distinct (map fst (recordPairs ds m))"
  by (induction ds rule: rev_induct) (simp_all add: recordPairs_Nil recordPairs_snoc distinct_recordPair)








lemma pairReport_empty: "pairReport \<lparr>First = None, Second = None\<rparr> = []"
  by (simp add: pairReport_def)


lemma reconcilePairs_set:
  assumes "distinct (map fst m)"
  shows "set (reconcilePairs m) = (\<Union>k. set (pairReport (getPair m k)))"
proof (intro set_eqI iffI)
  fix d assume "d \<in> set (reconcilePairs m)"
  then obtain k pr where kp: "(k, pr) \<in> set m" and d: "d \<in> set (pairReport pr)"
    by (auto simp: reconcilePairs_def)
  then have "getPair m k = pr" using assms by (simp add: getPair_def)
  then show "d \<in> (\<Union>k. set (pairReport (getPair m k)))" using d by blast
next
  fix d assume "d \<in> (\<Union>k. set (pairReport (getPair m k)))"
  then obtain k where d: "d \<in> set (pairReport (getPair m k))" by blast
  then obtain pr where "map_of m k = Some pr"
    by (cases "map_of m k") (auto simp: getPair_def pairReport_empty)
  then have "(k, pr) \<in> set m" "getPair m k = pr" by (auto simp: getPair_def dest: map_of_SomeD)
  then show "d \<in> set (reconcilePairs m)" using d by (force simp: reconcilePairs_def)
qed








lemma populate_Set_Get:
  "HasPrefix name ''Set'' \<or> HasPrefix name ''Get'' \<Longrightarrow> populate name p pr = pr"
  by (auto simp: populate_def HasPrefix_iff)

lemma recordPair_unpopulated:
  assumes "populate name p (getPair m (pairKey fname name)) = getPair m (pairKey fname name)"
  shows "recordPair fname name p m =
           (if map_of m (pairKey fname name) = None
            then m @ [(pairKey fname name, \<lparr>First = None, Second = None\<rparr>)] else m)"
proof (cases "map_of m (pairKey fname name)")
  case None
  then have "pairKey fname name \<notin> fst ` set m" by (simp add: map_of_eq_None_iff)
  then have "AList.update (pairKey fname name) \<lparr>First = None, Second = None\<rparr> m
      = m @ [(pairKey fname name, \<lparr>First = None, Second = None\<rparr>)]"
    by (induction m) auto
  then show ?thesis using assms None by (simp add: recordPair_def Let_def getPair_def)
next
  case (Some pr)
  then have "AList.update (pairKey fname name) pr m = m" by (rule update_triv)
  then show ?thesis using assms Some by (simp add: recordPair_def Let_def getPair_def)
qed

lemma getPair_recordPairs_cong:
  "(\<And>k. getPair m k = getPair m' k) \<Longrightarrow>
     getPair (recordPairs ds m) k = getPair (recordPairs ds m') k"
proof (induction ds arbitrary: k rule: rev_induct)
  case Nil
  then show ?case by (simp add: recordPairs_Nil)
next
  case (snoc d ds)
  show ?case
    using snoc.IH [OF snoc.prems] by (simp add: recordPairs_snoc getPair_recordPair)
qed

text \<open>
  Claim C7. A function declaration whose name starts with \<open>Set\<close> or \<open>Get\<close> reaches
  the default case of the first switch, which reports nothing; recording it fills neither
  half of a pair and leaves both halves of the pair at every key as they were, and the
  reconciliation of the pairs reports the same diagnostics with and without it. The same
  holds for a package: with such a declaration added anywhere among the others, every
  pair and the set of diagnostics of the reconciliation are what they are without it.
\<close>

theorem Set_Get_never_report:
  assumes "HasPrefix name ''Set'' \<or> HasPrefix name ''Get''"
  shows "funcNameSwitch fname p name typ st = Inr (st\<lparr>a2b := recordPair fname name p (a2b st)\<rparr>) \<and>
         populate name p pr = pr \<and>
         (\<forall>k. getPair (recordPair fname name p m) k = getPair m k) \<and>
         reconcilePairs (recordPair fname name p m) = reconcilePairs m \<and>
         (\<forall>k. getPair (recordPairs (xs @ (fname, name, p) # ys) []) k
                = getPair (recordPairs (xs @ ys) []) k) \<and>
         set (reconcilePairs (recordPairs (xs @ (fname, name, p) # ys) []))
           = set (reconcilePairs (recordPairs (xs @ ys) []))"
proof -
  have pop: "populate name p pr = pr" for pr
    using assms by (rule populate_Set_Get)
  have "\<not> HasPrefix name ''Is''" "\<not> HasPrefix name ''New''"
    using assms by (auto simp: HasPrefix_iff)
  then have a: "funcNameSwitch fname p name typ st =
      Inr (st\<lparr>a2b := recordPair fname name p (a2b st)\<rparr>)"
    by (simp add: funcNameSwitch_def)
  have b: "getPair (recordPair fname name p m) k = getPair m k" for k m
    by (simp add: getPair_recordPair pop)
  have c: "reconcilePairs (recordPair fname name p m) = reconcilePairs m"
    by (simp add: recordPair_unpopulated [OF pop] reconcilePairs_def pairReport_def)
  have d: "getPair (recordPairs (xs @ (fname, name, p) # ys) []) k
      = getPair (recordPairs (xs @ ys) []) k" for k
  proof -
    have "recordPairs (xs @ (fname, name, p) # ys) []
        = recordPairs ys (recordPair fname name p (recordPairs xs []))"
      by (simp add: recordPairs_def)
    moreover have "recordPairs (xs @ ys) [] = recordPairs ys (recordPairs xs [])"
      by (simp add: recordPairs_def)
    ultimately show ?thesis
      using getPair_recordPairs_cong [of "recordPair fname name p (recordPairs xs [])"
          "recordPairs xs []" ys k] b
      by simp
  qed
  have e: "set (reconcilePairs (recordPairs (xs @ (fname, name, p) # ys) []))
      = set (reconcilePairs (recordPairs (xs @ ys) []))"
    using d by (simp add: reconcilePairs_set distinct_recordPairs)
  show ?thesis using a pop b c d e by simp
qed

theorem Set_Get_never_report_witness:
  "HasPrefix ''SetName'' ''Set'' \<and>
   recordPair ''svc'' ''SetName'' 50 (recordPairs exDecls []) =
     recordPairs exDecls [] @ [(''svc.SetName'', \<lparr>First = None, Second = None\<rparr>)] \<and>
   reconcilePairs (recordPair ''svc'' ''SetName'' 50 (recordPairs exDecls [])) =
     reconcilePairs (recordPairs exDecls []) \<and>
   set (reconcilePairs (recordPairs ([] @ (''svc'', ''SetName'', 50) # exDecls) [])) =
     set (reconcilePairs (recordPairs ([] @ exDecls) []))"
proof -
  have h: "HasPrefix ''SetName'' ''Set'' \<or> HasPrefix ''SetName'' ''Get''"
    by (simp add: HasPrefix_def)
  have ev: "recordPairs exDecls [] =
     [(''svc.User'', \<lparr>First = Some \<lparr>Name = ''Request'', Reporter = \<lparr>pos = 10\<rparr>\<rparr>, Second = None\<rparr>),
      (''svc.Order'', \<lparr>First = Some \<lparr>Name = ''Send'', Reporter = \<lparr>pos = 20\<rparr>\<rparr>, Second = None\<rparr>),
      (''svc.Item'', \<lparr>First = Some \<lparr>Name = ''Publish'', Reporter = \<lparr>pos = 40\<rparr>\<rparr>,
         Second = Some \<lparr>Name = ''Receive'', Reporter = \<lparr>pos = 30\<rparr>\<rparr>\<rparr>)]"
    by (simp add: exDecls_def recordPairs_def recordPair_def populate_def pairKey_def
          trimVerbs_def TrimPrefix_def HasPrefix_def getPair_def Let_def)
  have r: "recordPair ''svc'' ''SetName'' 50 (recordPairs exDecls []) =
     recordPairs exDecls [] @ [(''svc.SetName'', \<lparr>First = None, Second = None\<rparr>)]"
    by (simp add: ev recordPair_def populate_def pairKey_def
          trimVerbs_def TrimPrefix_def HasPrefix_def getPair_def Let_def)
  show ?thesis
    using Set_Get_never_report [OF h, of "''svc''" 50 "FuncType 0 None None None" initState
        "\<lparr>First = None, Second = None\<rparr>" "recordPairs exDecls []" "[]" exDecls] r
    by (simp add: HasPrefix_def)
qed

subsection \<open>The traversal\<close>

lemma reports_Reportf: "reports (Reportf ds st) = reports st @ ds"
  by (simp add: Reportf_def)

lemma regs_Reportf:
  "a2b (Reportf ds st) = a2b st"
  "errorStructMap (Reportf ds st) = errorStructMap st"
  "errorCheckerMap (Reportf ds st) = errorCheckerMap st"
  by (simp_all add: Reportf_def)

lemma recordErrorStruct_others:
  "reports (recordErrorStruct spec st) = reports st"
  "a2b (recordErrorStruct spec st) = a2b st"
  "errorCheckerMap (recordErrorStruct spec st) = errorCheckerMap st"
  by (auto simp: recordErrorStruct_def split: node.splits)

lemma fold_recordErrorStruct_others:
  "reports (fold recordErrorStruct specs st) = reports st"
  "a2b (fold recordErrorStruct specs st) = a2b st"
  "errorCheckerMap (fold recordErrorStruct specs st) = errorCheckerMap st"
  by (induction specs arbitrary: st) (simp_all add: recordErrorStruct_others)

lemma funcNameSwitch_reports:
  "funcNameSwitch fname p name typ st = Inr st' \<Longrightarrow>
     reports st' = reports st @ funcNameReports p name typ"
  by (auto simp: funcNameSwitch_def funcNameReports_def reports_Reportf
        split: if_splits option.splits)

lemma funcDeclCase_reports:
  assumes "funcDeclCase fname p name typ body st = Inr st'"
  shows "reports st' = reports st @ funcNameReports p (identName name) typ @ ctxFirstCheck p typ
           @ errLastCheck p typ
           @ (case body of None \<Rightarrow> [] | Some b \<Rightarrow> concat (map elseCheck (blockList b)))"
proof -
  from assms obtain st1 where s1: "funcNameSwitch fname p (identName name) typ st = Inr st1"
    by (auto simp: funcDeclCase_def split: sum.splits)
  from assms s1 obtain b where b: "body = Some b"
    by (cases body) (auto simp: funcDeclCase_def bodyCheck_def Let_def)
  from assms s1 b have "st' = Reportf (concat (map elseCheck (blockList b)))
      (Reportf (errLastCheck p typ) (Reportf (ctxFirstCheck p typ) st1))"
    by (simp add: funcDeclCase_def bodyCheck_def Let_def)
  then show ?thesis
    using funcNameSwitch_reports [OF s1] b by (simp add: reports_Reportf)
qed

lemma typeSwitch_reports:
  assumes "typeSwitch f node st = Inr st'"
  shows "reports st' = reports st @ nodeReports node"
proof (cases node)
  case None
  then show ?thesis using assms by (simp add: typeSwitch_def nodeReports_def)
next
  case (Some n)
  show ?thesis
  proof (cases n)
    case (FuncDecl p doc recv name ty body)
    then show ?thesis
      using assms Some funcDeclCase_reports [of "identName (fileName f)" p name ty body st st']
      by (simp add: typeSwitch_def nodeReports_def)
  next
    case (GenDecl p doc tok specs)
    then show ?thesis
      using assms Some
      by (cases tok)
         (auto simp: typeSwitch_def nodeReports_def reports_Reportf fold_recordErrorStruct_others)
  qed (insert assms Some, auto simp: typeSwitch_def nodeReports_def reports_Reportf)
qed

lemma callback_reports:
  assumes "callback packagePath f node st = Inr st'"
  shows "reports st' = reports st @ visitReports packagePath f node"
proof -
  obtain grp parts where sp: "splitPackagePath packagePath = (grp, parts)"
    by (cases "splitPackagePath packagePath")
  from assms sp obtain ds where ds: "checkPackageName parts node = Inr ds"
    by (auto simp: callback_def split: sum.splits)
  from assms sp ds have "typeSwitch f node
      (Reportf (checkImports grp parts (Imports f)) (Reportf ds st)) = Inr st'"
    by (simp add: callback_def)
  from typeSwitch_reports [OF this] show ?thesis
    by (simp add: visitReports_def sp ds reports_Reportf)
qed

lemma visitAll_fold:
  assumes step: "\<And>n st st'. fn n st = Inr st' \<Longrightarrow> g st' = F (h n) (g st)"
    and app: "\<And>xs ys m. F (xs @ ys) m = F ys (F xs m)"
    and nil: "\<And>m. F [] m = m"
  shows "visitAll fn ns st = Inr st' \<Longrightarrow> g st' = F (concat (map h ns)) (g st)"
proof (induction ns arbitrary: st)
  case Nil
  then show ?case by (simp add: nil)
next
  case (Cons n ns)
  from Cons.prems obtain st1 where s1: "fn n st = Inr st1" and r: "visitAll fn ns st1 = Inr st'"
    by (auto split: sum.splits)
  show ?case
    using Cons.IH [OF r] step [OF s1] by (simp add: app)
qed

lemma visitAll_reports:
  assumes "visitAll (callback packagePath f) ns st = Inr st'"
  shows "reports st' = reports st @ concat (map (visitReports packagePath f) ns)"
  using visitAll_fold [of "callback packagePath f" reports "\<lambda>xs m. m @ xs"
      "visitReports packagePath f" ns st st', OF callback_reports _ _ assms]
  by simp

lemma analyzeFiles_reports:
  "analyzeFiles packagePath files st = Inr st' \<Longrightarrow>
     reports st' = reports st @ concat (map (fileReports packagePath) files)"
proof (induction files arbitrary: st)
  case Nil
  then show ?case by simp
next
  case (Cons f fs)
  from Cons.prems obtain st1 where
    s1: "visitAll (callback packagePath f) (walkFile f) st = Inr st1" and
    r: "analyzeFiles packagePath fs st1 = Inr st'"
    by (auto simp: Inspect_def split: sum.splits)
  show ?case
    using Cons.IH [OF r] visitAll_reports [OF s1] by (simp add: fileReports_def)
qed

subsection \<open>The messages\<close>

lemma hd_noElseMessage: "hd noElseMessage = CHR ''i''"
  by (simp add: noElseMessage_def)

lemma hd_exportedVarMessage: "hd (exportedVarMessage x) = CHR ''g''"
  by (simp add: exportedVarMessage_def)

lemma hd_missingFunctionMessage: "hd (missingFunctionMessage x) = CHR ''m''"
  by (simp add: missingFunctionMessage_def)

lemma hd_missingStructMessage: "hd (missingStructMessage x) = CHR ''m''"
  by (simp add: missingStructMessage_def)

lemma hd_checkPackageName:
  "d \<in> set (case checkPackageName parts node of Inl _ \<Rightarrow> [] | Inr ds \<Rightarrow> ds)
     \<Longrightarrow> hd (snd d) = CHR ''s''"
  by (auto simp: checkPackageName_def split: if_splits option.splits)

lemma hd_sameGroupCheck:
  "d \<in> set (sameGroupCheck grp parts imp) \<Longrightarrow> hd (snd d) = CHR ''m''"
  by (simp add: sameGroupCheck_def split_beta split: if_splits)

lemma hd_forbiddenGroupCheck:
  "d \<in> set (forbiddenGroupCheck grp imp) \<Longrightarrow> hd (snd d) = CHR ''m''"
  unfolding forbiddenGroupCheck_def Let_def
  by (simp split: if_splits)

lemma hd_checkImports:
  "d \<in> set (checkImports grp parts imps) \<Longrightarrow> hd (snd d) = CHR ''m''"
  by (auto simp: checkImports_def checkImport_def
        dest: hd_sameGroupCheck hd_forbiddenGroupCheck)

lemma hd_goStmtCheck: "d \<in> set (goStmtCheck p) \<Longrightarrow> hd (snd d) = CHR ''s''"
  by (auto simp: goStmtCheck_def)

lemma hd_bannedImportCheck: "d \<in> set (bannedImportCheck imp) \<Longrightarrow> hd (snd d) = CHR ''s''"
  by (auto simp: bannedImportCheck_def split: option.splits)

lemma hd_funcNameReports: "d \<in> set (funcNameReports p name ty) \<Longrightarrow> hd (snd d) = CHR ''m''"
  by (cases "Params ty"; cases "HasPrefix name ''Is'' \<and> HasSuffix name ''Error''";
      cases "HasPrefix name ''New''"; cases "list_ex isCtxParam (flList (the (Params ty)))";
      simp add: funcNameReports_def)

lemma hd_ctxFirstCheck: "d \<in> set (ctxFirstCheck p ty) \<Longrightarrow> hd (snd d) = CHR ''c''"
  by (auto simp: ctxFirstCheck_def split: if_splits option.splits prod.splits)

lemma hd_errLastCheck: "d \<in> set (errLastCheck p ty) \<Longrightarrow> hd (snd d) = CHR ''e''"
  by (auto simp: errLastCheck_def split: if_splits option.splits prod.splits)

lemma hd_returnCheck: "d \<in> set (returnCheck p r) \<Longrightarrow> hd (snd d) = CHR ''s''"
  by (auto simp: returnCheck_def split: if_splits node.splits)

lemma hd_makeCheck: "d \<in> set (makeCheck p fn args) \<Longrightarrow> hd (snd d) = CHR ''m''"
  by (auto simp: makeCheck_def split: if_splits node.splits)

lemma hd_varSpecCheck: "d \<in> set (varSpecCheck spec) \<Longrightarrow> hd (snd d) = CHR ''g''"
  by (auto simp: varSpecCheck_def hd_exportedVarMessage split: if_splits node.splits list.splits)


lemma hd_reconcileErrors:
  "d \<in> set (reconcileErrors structs checkers) \<Longrightarrow> hd (snd d) = CHR ''m''"
proof -
  have a: "d \<in> set (fst (structLoop es cm)) \<Longrightarrow> hd (snd d) = CHR ''m''" for es cm
    by (induction es arbitrary: cm)
       (auto simp: Let_def split_beta hd_missingFunctionMessage split: if_splits)
  assume "d \<in> set (reconcileErrors structs checkers)"
  then show ?thesis
    using a [of structs checkers]
    by (auto simp: reconcileErrors_def split_beta checkerLoop_def checkerReport_def Let_def
          hd_missingStructMessage split: if_splits)
qed

lemma hd_reconcilePairs: "d \<in> set (reconcilePairs m) \<Longrightarrow> hd (snd d) = CHR ''m''"
  by (auto simp: reconcilePairs_def pairReport_def hd_missingFunctionMessage
        split: option.splits)

lemma elseCheck_iff:
  "(p, noElseMessage) \<in> set (elseCheck stmt) \<longleftrightarrow> (\<exists>inner e. stmt = IfStmt p inner (Some e))"
  by (auto simp: elseCheck_def split: node.splits option.splits)


lemma nodeReports_noElse:
  "(p, noElseMessage) \<in> set (nodeReports node) \<longleftrightarrow>
     (\<exists>q doc recv name ty b inner e.
        node = Some (FuncDecl q doc recv name ty (Some b)) \<and>
        IfStmt p inner (Some e) \<in> set (blockList b))"
proof (cases node)
  case None
  then show ?thesis by (simp add: nodeReports_def)
next
  case (Some n)
  show ?thesis
  proof (cases n)
    case (FuncDecl q doc recv name ty body)
    have "(p, noElseMessage) \<notin> set (funcNameReports q (identName name) ty)"
      "(p, noElseMessage) \<notin> set (ctxFirstCheck q ty)"
      "(p, noElseMessage) \<notin> set (errLastCheck q ty)"
      using hd_funcNameReports [of "(p, noElseMessage)"] hd_ctxFirstCheck [of "(p, noElseMessage)"]
        hd_errLastCheck [of "(p, noElseMessage)"]
      by (auto simp: hd_noElseMessage)
    then show ?thesis
      using Some FuncDecl by (cases body) (auto simp: nodeReports_def elseCheck_iff)
  next
    case (GenDecl q doc tok specs)
    have "(p, noElseMessage) \<notin> set (concat (map varSpecCheck specs))"
      using hd_varSpecCheck [of "(p, noElseMessage)"] by (auto simp: hd_noElseMessage)
    then show ?thesis using Some GenDecl by (cases tok) (auto simp: nodeReports_def)
  next
    case (GoStmt q c)
    then show ?thesis
      using Some hd_goStmtCheck [of "(p, noElseMessage)"]
      by (auto simp: nodeReports_def hd_noElseMessage)
  next
    case (ImportSpecNode imp)
    then show ?thesis
      using Some hd_bannedImportCheck [of "(p, noElseMessage)"]
      by (auto simp: nodeReports_def hd_noElseMessage)
  next
    case (ReturnStmt q rs)
    then show ?thesis
      using Some hd_returnCheck [of "(p, noElseMessage)"]
      by (auto simp: nodeReports_def hd_noElseMessage)
  next
    case (CallExpr q fn args)
    then show ?thesis
      using Some hd_makeCheck [of "(p, noElseMessage)"]
      by (auto simp: nodeReports_def hd_noElseMessage)
  qed (insert Some, auto simp: nodeReports_def)
qed


lemma visitReports_nodeReports:
  assumes "hd (snd d) \<noteq> CHR ''s''" "hd (snd d) \<noteq> CHR ''m''"
  shows "d \<in> set (visitReports packagePath f node) \<longleftrightarrow> d \<in> set (nodeReports node)"
  using assms hd_checkPackageName [of d "snd (splitPackagePath packagePath)" node]
    hd_checkImports [of d "fst (splitPackagePath packagePath)"
      "snd (splitPackagePath packagePath)" "Imports f"]
  by (auto simp: visitReports_def split_beta)

subsection \<open>The diagnostics of a run\<close>

lemma runAnalyzer_Inr:
  assumes "runAnalyzer packagePath files = Inr ds"
  obtains st where "analyzeFiles packagePath files initState = Inr st"
    and "ds = concat (map (fileReports packagePath) files)
           @ reconcileErrors (errorStructMap st) (errorCheckerMap st) @ reconcilePairs (a2b st)"
proof -
  from assms obtain st where st: "analyzeFiles packagePath files initState = Inr st"
    and ds: "ds = reports st @ reconcileErrors (errorStructMap st) (errorCheckerMap st)
               @ reconcilePairs (a2b st)"
    by (auto simp: runAnalyzer_def split: sum.splits)
  from analyzeFiles_reports [OF st] have "reports st = concat (map (fileReports packagePath) files)"
    by (simp add: initState_def)
  with st ds that show thesis by simp
qed

lemma fileReports_mem:
  assumes "hd (snd d) \<noteq> CHR ''s''" "hd (snd d) \<noteq> CHR ''m''"
  shows "d \<in> set (concat (map (fileReports packagePath) files)) \<longleftrightarrow>
     (\<exists>f \<in> set files. \<exists>node \<in> set (walkFile f). d \<in> set (nodeReports node))"
  using visitReports_nodeReports [OF assms] by (auto simp: fileReports_def)

lemma run_mem:
  assumes run: "runAnalyzer packagePath files = Inr ds"
    and d: "hd (snd d) \<noteq> CHR ''s''" "hd (snd d) \<noteq> CHR ''m''"
  shows "d \<in> set ds \<longleftrightarrow>
     (\<exists>f \<in> set files. \<exists>node \<in> set (walkFile f). d \<in> set (nodeReports node))"
proof -
  from run obtain st where
    st: "analyzeFiles packagePath files initState = Inr st" and
    ds: "ds = concat (map (fileReports packagePath) files)
           @ reconcileErrors (errorStructMap st) (errorCheckerMap st) @ reconcilePairs (a2b st)"
    by (rule runAnalyzer_Inr)
  have "d \<notin> set (reconcileErrors (errorStructMap st) (errorCheckerMap st))"
    using hd_reconcileErrors [of d] d by blast
  moreover have "d \<notin> set (reconcilePairs (a2b st))"
    using hd_reconcilePairs [of d] d by blast
  ultimately show ?thesis
    using fileReports_mem [OF d, of packagePath files] by (simp add: ds)
qed

subsection \<open>The registries after the traversal\<close>

lemma recordPairs_append: "recordPairs (xs @ ys) m = recordPairs ys (recordPairs xs m)"
  by (simp add: recordPairs_def)

lemma funcNameSwitch_a2b:
  "funcNameSwitch fname p name ty st = Inr st' \<Longrightarrow>
     a2b st' =
       (if (HasPrefix name ''Is'' \<and> HasSuffix name ''Error'') \<or> HasPrefix name ''New''
        then a2b st else recordPair fname name p (a2b st))"
  by (auto simp: funcNameSwitch_def regs_Reportf split: if_splits option.splits)

lemma funcDeclCase_a2b:
  assumes "funcDeclCase fname p name ty body st = Inr st'"
  shows "a2b st' =
       (if (HasPrefix (identName name) ''Is'' \<and> HasSuffix (identName name) ''Error'')
           \<or> HasPrefix (identName name) ''New''
        then a2b st else recordPair fname (identName name) p (a2b st))"
proof -
  from assms obtain st1 where s1: "funcNameSwitch fname p (identName name) ty st = Inr st1"
    by (auto simp: funcDeclCase_def split: sum.splits)
  from assms s1 have "a2b st' = a2b st1"
    by (auto simp: funcDeclCase_def Let_def regs_Reportf split: sum.splits)
  then show ?thesis using funcNameSwitch_a2b [OF s1] by simp
qed

lemma typeSwitch_a2b:
  assumes "typeSwitch f node st = Inr st'"
  shows "a2b st' = recordPairs (pairDecls f node) (a2b st)"
proof (cases node)
  case None
  then show ?thesis using assms by (simp add: typeSwitch_def pairDecls_def recordPairs_Nil)
next
  case (Some n)
  show ?thesis
  proof (cases n)
    case (FuncDecl p doc recv name ty body)
    then show ?thesis
      using assms Some funcDeclCase_a2b [of "identName (fileName f)" p name ty body st st']
      by (simp add: typeSwitch_def pairDecls_def recordPairs_def)
  next
    case (GenDecl p doc tok specs)
    then show ?thesis
      using assms Some
      by (cases tok)
         (auto simp: typeSwitch_def pairDecls_def recordPairs_Nil regs_Reportf
            fold_recordErrorStruct_others)
  qed (insert assms Some, auto simp: typeSwitch_def pairDecls_def recordPairs_Nil regs_Reportf)
qed

lemma callback_a2b:
  assumes "callback packagePath f node st = Inr st'"
  shows "a2b st' = recordPairs (pairDecls f node) (a2b st)"
proof -
  obtain grp parts where sp: "splitPackagePath packagePath = (grp, parts)"
    by (cases "splitPackagePath packagePath")
  from assms sp obtain ds where ds: "checkPackageName parts node = Inr ds"
    by (auto simp: callback_def split: sum.splits)
  from assms sp ds have "typeSwitch f node
      (Reportf (checkImports grp parts (Imports f)) (Reportf ds st)) = Inr st'"
    by (simp add: callback_def)
  from typeSwitch_a2b [OF this] show ?thesis by (simp add: regs_Reportf)
qed

lemma visitAll_a2b:
  assumes "visitAll (callback packagePath f) ns st = Inr st'"
  shows "a2b st' = recordPairs (concat (map (pairDecls f) ns)) (a2b st)"
  using visitAll_fold [of "callback packagePath f" a2b recordPairs "pairDecls f" ns st st',
      OF callback_a2b recordPairs_append recordPairs_Nil assms] .

lemma analyzeFiles_a2b:
  "analyzeFiles packagePath files st = Inr st' \<Longrightarrow>
     a2b st' = recordPairs (concat (map filePairDecls files)) (a2b st)"
proof (induction files arbitrary: st)
  case Nil
  then show ?case by (simp add: recordPairs_Nil)
next
  case (Cons f fs)
  from Cons.prems obtain st1 where
    s1: "visitAll (callback packagePath f) (walkFile f) st = Inr st1" and
    r: "analyzeFiles packagePath fs st1 = Inr st'"
    by (auto simp: Inspect_def split: sum.splits)
  show ?case
    using Cons.IH [OF r] visitAll_a2b [OF s1] by (simp add: filePairDecls_def recordPairs_append)
qed

lemma registryInv_Reportf: "registryInv (Reportf ds st) = registryInv st"
  by (simp add: registryInv_def regs_Reportf)

lemma registryInv_recordErrorStruct: "registryInv st \<Longrightarrow> registryInv (recordErrorStruct spec st)"
  by (auto simp: recordErrorStruct_def registryInv_def distinct_update split: node.splits)

lemma registryInv_fold:
  "registryInv st \<Longrightarrow> registryInv (fold recordErrorStruct specs st)"
  by (induction specs arbitrary: st) (simp_all add: registryInv_recordErrorStruct)

lemma list_all_update:
  "list_all P m \<Longrightarrow> P (k, v) \<Longrightarrow> list_all P (AList.update k v m)"
  by (induction m) auto

lemma registryInv_funcNameSwitch:
  "funcNameSwitch fname p name ty st = Inr st' \<Longrightarrow> registryInv st \<Longrightarrow> registryInv st'"
  by (auto simp: funcNameSwitch_def registryInv_def regs_Reportf distinct_update list_all_update
        split: if_splits option.splits)

lemma registryInv_funcDeclCase:
  assumes "funcDeclCase fname p name ty body st = Inr st'" "registryInv st"
  shows "registryInv st'"
proof -
  from assms obtain st1 where s1: "funcNameSwitch fname p (identName name) ty st = Inr st1"
    by (auto simp: funcDeclCase_def split: sum.splits)
  from assms s1 have "registryInv st' = registryInv st1"
    by (auto simp: funcDeclCase_def Let_def registryInv_Reportf split: sum.splits)
  then show ?thesis using registryInv_funcNameSwitch [OF s1 assms(2)] by simp
qed

lemma registryInv_typeSwitch:
  assumes "typeSwitch f node st = Inr st'" "registryInv st"
  shows "registryInv st'"
proof (cases node)
  case None
  then show ?thesis using assms by (simp add: typeSwitch_def)
next
  case (Some n)
  show ?thesis
  proof (cases n)
    case (FuncDecl p doc recv name ty body)
    then show ?thesis
      using assms Some registryInv_funcDeclCase [of "identName (fileName f)" p name ty body st st']
      by (simp add: typeSwitch_def)
  next
    case (GenDecl p doc tok specs)
    then show ?thesis
      using assms Some
      by (cases tok) (auto simp: typeSwitch_def registryInv_Reportf registryInv_fold)
  qed (insert assms Some, auto simp: typeSwitch_def registryInv_Reportf)
qed

lemma registryInv_callback:
  assumes "callback packagePath f node st = Inr st'" "registryInv st"
  shows "registryInv st'"
proof -
  obtain grp parts where sp: "splitPackagePath packagePath = (grp, parts)"
    by (cases "splitPackagePath packagePath")
  from assms sp obtain ds where ds: "checkPackageName parts node = Inr ds"
    by (auto simp: callback_def split: sum.splits)
  from assms sp ds have "typeSwitch f node
      (Reportf (checkImports grp parts (Imports f)) (Reportf ds st)) = Inr st'"
    by (simp add: callback_def)
  from registryInv_typeSwitch [OF this] assms(2) show ?thesis by (simp add: registryInv_Reportf)
qed

lemma registryInv_visitAll:
  "visitAll (callback packagePath f) ns st = Inr st' \<Longrightarrow> registryInv st \<Longrightarrow> registryInv st'"
proof (induction ns arbitrary: st)
  case Nil
  then show ?case by simp
next
  case (Cons n ns)
  from Cons.prems(1) obtain st1 where s1: "callback packagePath f n st = Inr st1"
    and r: "visitAll (callback packagePath f) ns st1 = Inr st'"
    by (auto split: sum.splits)
  show ?case using Cons.IH [OF r] registryInv_callback [OF s1 Cons.prems(2)] by simp
qed

lemma registryInv_analyzeFiles:
  "analyzeFiles packagePath files st = Inr st' \<Longrightarrow> registryInv st \<Longrightarrow> registryInv st'"
proof (induction files arbitrary: st)
  case Nil
  then show ?case by simp
next
  case (Cons f fs)
  from Cons.prems(1) obtain st1 where
    s1: "visitAll (callback packagePath f) (walkFile f) st = Inr st1" and
    r: "analyzeFiles packagePath fs st1 = Inr st'"
    by (auto simp: Inspect_def split: sum.splits)
  show ?case
    using Cons.IH [OF r] registryInv_visitAll [OF s1 Cons.prems(2)] by simp
qed

lemma runAnalyzer_shape:
  assumes "runAnalyzer packagePath files = Inr ds"
  shows "\<exists>structs checkers.
     ds = concat (map (fileReports packagePath) files) @ reconcileErrors structs checkers
            @ reconcilePairs (recordPairs (concat (map filePairDecls files)) []) \<and>
     distinct (map fst structs) \<and> distinct (map fst checkers) \<and>
     (\<forall>c \<in> fst ` set checkers. HasPrefix c ''Is'')"
proof -
  from assms obtain st where
    st: "analyzeFiles packagePath files initState = Inr st" and
    ds: "ds = concat (map (fileReports packagePath) files)
           @ reconcileErrors (errorStructMap st) (errorCheckerMap st) @ reconcilePairs (a2b st)"
    by (rule runAnalyzer_Inr)
  have "registryInv initState" by (simp add: registryInv_def initState_def)
  then have inv: "registryInv st" by (rule registryInv_analyzeFiles [OF st])
  have a: "a2b st = recordPairs (concat (map filePairDecls files)) []"
    using analyzeFiles_a2b [OF st] by (simp add: initState_def)
  show ?thesis
    using ds a inv by (auto simp: registryInv_def list_all_iff)
qed

lemma length_le_count_concat:
  "(\<And>x. x \<in> set xs \<Longrightarrow> 1 \<le> count_list (g x) d) \<Longrightarrow>
     length xs \<le> count_list (concat (map g xs)) d"
proof (induction xs)
  case Nil
  then show ?case by simp
next
  case (Cons a xs)
  have "1 \<le> count_list (g a) d" using Cons.prems by simp
  moreover have "length xs \<le> count_list (concat (map g xs)) d"
    using Cons.IH Cons.prems by simp
  ultimately show ?case by simp
qed

lemma count_le_count_concat:
  "x \<in> set xs \<Longrightarrow> count_list (g x) d \<le> count_list (concat (map g xs)) d"
  by (induction xs) auto

lemma length_walkFile: "2 \<le> length (walkFile f)"
  by (simp add: walkFile_def fileNode_def)

lemma offending_import_reported_per_visit:
  assumes run: "runAnalyzer packagePath files = Inr ds"
    and f: "f \<in> set files" and imp: "imp \<in> set (Imports f)"
    and d: "d \<in> set (checkImport (fst (splitPackagePath packagePath))
                       (snd (splitPackagePath packagePath)) imp)"
  shows "length (walkFile f) \<le> count_list ds d" and "2 \<le> count_list ds d"
proof -
  let ?g = "fst (splitPackagePath packagePath)" and ?ps = "snd (splitPackagePath packagePath)"
  have "1 \<le> count_list (checkImport ?g ?ps imp) d"
    using d by (metis One_nat_def Suc_leI count_list_0_iff neq0_conv)
  also have "\<dots> \<le> count_list (checkImports ?g ?ps (Imports f)) d"
    unfolding checkImports_def using imp by (rule count_le_count_concat)
  finally have one: "1 \<le> count_list (visitReports packagePath f n) d" for n
    by (simp add: visitReports_def split_beta)
  have "length (walkFile f) \<le> count_list (fileReports packagePath f) d"
    unfolding fileReports_def using one by (rule length_le_count_concat)
  also have "\<dots> \<le> count_list (concat (map (fileReports packagePath) files)) d"
    using f by (rule count_le_count_concat)
  also have "\<dots> \<le> count_list ds d"
    using runAnalyzer_shape [OF run] by auto
  finally show "length (walkFile f) \<le> count_list ds d" .
  then show "2 \<le> count_list ds d" using length_walkFile [of f] by linarith
qed

subsection \<open>The error contracts in a run\<close>

lemma last_missingFunctionMessage: "last (missingFunctionMessage x) = CHR ''n''"
  by (simp add: missingFunctionMessage_def)

lemma last_missingStructMessage: "last (missingStructMessage x) = CHR ''t''"
  by (simp add: missingStructMessage_def)

lemma last_checkPackageName:
  "d \<in> set (case checkPackageName parts node of Inl _ \<Rightarrow> [] | Inr ds \<Rightarrow> ds)
     \<Longrightarrow> last (snd d) = CHR ''e''"
  by (auto simp: checkPackageName_def bannedPackageNames_def split: if_splits option.splits)

lemma last_sameGroupCheck:
  "d \<in> set (sameGroupCheck grp parts imp) \<Longrightarrow> last (snd d) = CHR ''h''"
  by (simp add: sameGroupCheck_def split_beta split: if_splits)

lemma last_forbiddenGroupCheck:
  "d \<in> set (forbiddenGroupCheck grp imp) \<Longrightarrow> last (snd d) = CHR ''e''"
  unfolding forbiddenGroupCheck_def Let_def
  by (simp split: if_splits)

lemma last_checkImports:
  "d \<in> set (checkImports grp parts imps) \<Longrightarrow> last (snd d) \<in> {CHR ''h'', CHR ''e''}"
  by (auto simp: checkImports_def checkImport_def
        dest: last_sameGroupCheck last_forbiddenGroupCheck)

lemma last_goStmtCheck: "d \<in> set (goStmtCheck p) \<Longrightarrow> last (snd d) = CHR ''d''"
  by (auto simp: goStmtCheck_def)

lemma last_bannedImportCheck: "d \<in> set (bannedImportCheck imp) \<Longrightarrow> last (snd d) = CHR ''d''"
  by (auto simp: bannedImportCheck_def bannedImportPaths_def split: option.splits if_splits)

lemma last_funcNameReports: "d \<in> set (funcNameReports p name ty) \<Longrightarrow> last (snd d) = CHR ''r''"
  by (cases "Params ty"; cases "HasPrefix name ''Is'' \<and> HasSuffix name ''Error''";
      cases "HasPrefix name ''New''"; cases "list_ex isCtxParam (flList (the (Params ty)))";
      simp add: funcNameReports_def)

lemma last_ctxFirstCheck: "d \<in> set (ctxFirstCheck p ty) \<Longrightarrow> last (snd d) = CHR ''r''"
  by (auto simp: ctxFirstCheck_def split: if_splits option.splits prod.splits)

lemma last_errLastCheck: "d \<in> set (errLastCheck p ty) \<Longrightarrow> last (snd d) = CHR ''e''"
  by (auto simp: errLastCheck_def split: if_splits option.splits prod.splits)

lemma last_returnCheck: "d \<in> set (returnCheck p r) \<Longrightarrow> last (snd d) = CHR ''d''"
  by (auto simp: returnCheck_def split: if_splits node.splits)

lemma last_makeCheck: "d \<in> set (makeCheck p fn args) \<Longrightarrow> last (snd d) = CHR ''s''"
  by (auto simp: makeCheck_def split: if_splits node.splits)

lemma last_varSpecCheck: "d \<in> set (varSpecCheck spec) \<Longrightarrow> last (snd d) = CHR ''e''"
  by (auto simp: varSpecCheck_def exportedVarMessage_def split: if_splits node.splits list.splits)

lemma last_elseCheck: "d \<in> set (elseCheck stmt) \<Longrightarrow> last (snd d) = CHR ''d''"
  by (auto simp: elseCheck_def noElseMessage_def split: node.splits option.splits)

lemma last_nodeReports:
  assumes "d \<in> set (nodeReports node)"
  shows "last (snd d) \<in> {CHR ''d'', CHR ''e'', CHR ''r'', CHR ''s''}"
proof (cases node)
  case None
  then show ?thesis using assms by (simp add: nodeReports_def)
next
  case (Some n)
  show ?thesis
  proof (cases n)
    case (FuncDecl q doc recv name ty body)
    then show ?thesis
      using assms Some
      by (cases body)
         (auto simp: nodeReports_def
            dest: last_funcNameReports last_ctxFirstCheck last_errLastCheck last_elseCheck)
  next
    case (GenDecl q doc tok specs)
    then show ?thesis
      using assms Some by (cases tok) (auto simp: nodeReports_def dest: last_varSpecCheck)
  next
    case (GoStmt q c)
    then show ?thesis using assms Some by (auto simp: nodeReports_def dest: last_goStmtCheck)
  next
    case (ImportSpecNode imp)
    then show ?thesis
      using assms Some by (auto simp: nodeReports_def dest: last_bannedImportCheck)
  next
    case (ReturnStmt q rs)
    then show ?thesis using assms Some by (auto simp: nodeReports_def dest: last_returnCheck)
  next
    case (CallExpr q fn args)
    then show ?thesis using assms Some by (auto simp: nodeReports_def dest: last_makeCheck)
  qed (insert assms Some, auto simp: nodeReports_def)
qed

lemma last_visitReports:
  assumes "d \<in> set (visitReports packagePath f node)"
  shows "last (snd d) \<in> {CHR ''d'', CHR ''e'', CHR ''h'', CHR ''r'', CHR ''s''}"
  using assms last_checkPackageName [of d "snd (splitPackagePath packagePath)" node]
    last_checkImports [of d "fst (splitPackagePath packagePath)"
      "snd (splitPackagePath packagePath)" "Imports f"]
    last_nodeReports [of d node]
  by (auto simp: visitReports_def split_beta)

lemma last_fileReports:
  assumes "d \<in> set (concat (map (fileReports packagePath) files))"
  shows "last (snd d) \<in> {CHR ''d'', CHR ''e'', CHR ''h'', CHR ''r'', CHR ''s''}"
  using assms last_visitReports [of d packagePath] by (auto simp: fileReports_def)

lemma count_reconcilePairs_struct:
  "count_list (reconcilePairs m) (p, missingStructMessage e) = 0"
proof -
  have "(p, missingStructMessage e) \<notin> set (reconcilePairs m)"
    using function_ne_struct [of _ e, symmetric]
    by (auto simp: reconcilePairs_def pairReport_def split: option.splits)
  then show ?thesis by simp
qed

lemma opposite_ne_Is:
  "''Is'' @ e \<noteq> firstOpposite v" "''Is'' @ e \<noteq> secondOpposite v"
  by (auto simp: firstOpposite_def secondOpposite_def)

lemma count_reconcilePairs_function:
  "count_list (reconcilePairs m) (p, missingFunctionMessage (''Is'' @ e)) = 0"
proof -
  have "(p, missingFunctionMessage (''Is'' @ e)) \<notin> set (reconcilePairs m)"
    using opposite_ne_Is [of e]
    by (auto simp: reconcilePairs_def pairReport_def missingFunctionMessage_inj
          split: option.splits)
  then show ?thesis by simp
qed

lemma count_traversal:
  assumes "last (snd d) = CHR ''n'' \<or> last (snd d) = CHR ''t''"
  shows "count_list (concat (map (fileReports packagePath) files)) d = 0"
proof -
  have "d \<notin> set (concat (map (fileReports packagePath) files))"
  proof
    assume "d \<in> set (concat (map (fileReports packagePath) files))"
    from last_fileReports [OF this] assms show False by auto
  qed
  then show ?thesis by simp
qed

text \<open>
  Claim C4. After the traversal of a package (the state \<open>st\<close>), in the run that
  returns the diagnostics \<open>ds\<close>: a recorded struct \<open>e\<close> for which no checker
  \<open>Is\<close>\<open>e\<close> was recorded is reported exactly once in \<open>ds\<close>, at its position, as
  "missing \<open>Is\<close>\<open>e\<close> function"; when the checker was recorded there is no such
  diagnostic at any position; a recorded checker whose name without \<open>Is\<close> was not
  recorded as a struct is reported exactly once, at its position, as "missing struct" of
  that name; and no recorded struct is reported as a missing struct, so a matched pair is
  reported on neither side.
\<close>

theorem error_contract_run:
  assumes "analyzeFiles packagePath files initState = Inr st"
    and "runAnalyzer packagePath files = Inr ds"
  shows "(\<forall>e r. map_of (errorStructMap st) e = Some r \<longrightarrow>
            (map_of (errorCheckerMap st) (''Is'' @ e) = None \<longrightarrow>
               count_list ds (pos r, missingFunctionMessage (''Is'' @ e)) = 1) \<and>
            (map_of (errorCheckerMap st) (''Is'' @ e) \<noteq> None \<longrightarrow>
               (\<forall>p. count_list ds (p, missingFunctionMessage (''Is'' @ e)) = 0)) \<and>
            (\<forall>p. count_list ds (p, missingStructMessage e) = 0)) \<and>
         (\<forall>c r. map_of (errorCheckerMap st) c = Some r \<longrightarrow>
            map_of (errorStructMap st) (TrimPrefix c ''Is'') = None \<longrightarrow>
            count_list ds (pos r, missingStructMessage (TrimPrefix c ''Is'')) = 1)"
proof -
  let ?ds = "reports st @ reconcileErrors (errorStructMap st) (errorCheckerMap st)
               @ reconcilePairs (a2b st)"
  have ds: "ds = ?ds"
    using assms by (simp add: runAnalyzer_def)
  have rep: "reports st = concat (map (fileReports packagePath) files)"
    using analyzeFiles_reports [OF assms(1)] by (simp add: initState_def)
  have "registryInv initState" by (simp add: registryInv_def initState_def)
  then have "registryInv st" by (rule registryInv_analyzeFiles [OF assms(1)])
  then have inv: "distinct (map fst (errorStructMap st))" "distinct (map fst (errorCheckerMap st))"
    "\<forall>c \<in> fst ` set (errorCheckerMap st). HasPrefix c ''Is''"
    by (auto simp: registryInv_def list_all_iff)
  have f: "count_list ds (p, missingFunctionMessage (''Is'' @ e)) =
      count_list (reconcileErrors (errorStructMap st) (errorCheckerMap st))
        (p, missingFunctionMessage (''Is'' @ e))" for p e
    using count_traversal [of "(p, missingFunctionMessage (''Is'' @ e))" packagePath files]
      count_reconcilePairs_function [of "a2b st" p e]
    by (simp add: ds rep last_missingFunctionMessage)
  have s: "count_list ds (p, missingStructMessage e) =
      count_list (reconcileErrors (errorStructMap st) (errorCheckerMap st))
        (p, missingStructMessage e)" for p e
    using count_traversal [of "(p, missingStructMessage e)" packagePath files]
      count_reconcilePairs_struct [of "a2b st" p e]
    by (simp add: ds rep last_missingStructMessage)
  show ?thesis
    using reconcileErrors_counts [OF inv] unfolding f [symmetric] s [symmetric] by blast
qed

theorem error_contract_run_witness:
  "analyzeFiles ''proj/cmd/a'' [exErrorFile] initState = Inr exErrorState \<and>
   runAnalyzer ''proj/cmd/a'' [exErrorFile] = Inr exErrorDiags \<and>
   count_list exErrorDiags (16, missingFunctionMessage ''IsParseError'') = 1 \<and>
   count_list exErrorDiags (45, missingFunctionMessage ''IsIOError'') = 0 \<and>
   count_list exErrorDiags (100, missingStructMessage ''FooError'') = 1"
proof -
  have t: "analyzeFiles ''proj/cmd/a'' [exErrorFile] initState = Inr exErrorState"
    by code_simp
  have r: "runAnalyzer ''proj/cmd/a'' [exErrorFile] = Inr exErrorDiags"
    by code_simp
  note T = error_contract_run [OF t r]
  have m1: "map_of (errorStructMap exErrorState) ''ParseError'' = Some \<lparr>pos = 16\<rparr>"
    "map_of (errorCheckerMap exErrorState) (''Is'' @ ''ParseError'') = None"
    by (simp_all add: exErrorState_def)
  have m2: "map_of (errorStructMap exErrorState) ''IOError'' = Some \<lparr>pos = 45\<rparr>"
    "map_of (errorCheckerMap exErrorState) (''Is'' @ ''IOError'') \<noteq> None"
    by (simp_all add: exErrorState_def)
  have m3: "map_of (errorCheckerMap exErrorState) ''IsFooError'' = Some \<lparr>pos = 100\<rparr>"
    "map_of (errorStructMap exErrorState) (TrimPrefix ''IsFooError'' ''Is'') = None"
    "TrimPrefix ''IsFooError'' ''Is'' = ''FooError''"
    by (simp_all add: exErrorState_def TrimPrefix_def HasPrefix_def)
  from T m1 have c1: "count_list exErrorDiags
      (pos \<lparr>pos = 16\<rparr>, missingFunctionMessage (''Is'' @ ''ParseError'')) = 1" by blast
  from T m2 have c2: "count_list exErrorDiags
      (45, missingFunctionMessage (''Is'' @ ''IOError'')) = 0" by blast
  from T m3(1,2) have c3: "count_list exErrorDiags
      (pos \<lparr>pos = 100\<rparr>, missingStructMessage (TrimPrefix ''IsFooError'' ''Is'')) = 1" by blast
  show ?thesis using t r c1 c2 c3 m3(3) by simp
qed

subsection \<open>The rules on one node\<close>

text \<open>
  Claim C6, as amended. In a run that returns, the diagnostic of the no-else rule is
  reported at a position \<open>p\<close> if and only if an if statement at \<open>p\<close> with an else
  branch is a statement of the list \<open>Body.List\<close> of a function declaration that the
  traversal visits. An if statement without an else branch, and an if statement that is
  not such a statement itself (nested in another statement, or in a function literal), is
  not what the rule flags.
\<close>

theorem noElse_top_level_only:
  assumes "runAnalyzer packagePath files = Inr ds"
  shows "(p, noElseMessage) \<in> set ds \<longleftrightarrow>
     (\<exists>f \<in> set files. \<exists>q doc recv name ty b inner e.
        Some (FuncDecl q doc recv name ty (Some b)) \<in> set (walkFile f) \<and>
        IfStmt p inner (Some e) \<in> set (blockList b))"
proof -
  have "(p, noElseMessage) \<in> set ds \<longleftrightarrow>
     (\<exists>f \<in> set files. \<exists>node \<in> set (walkFile f). (p, noElseMessage) \<in> set (nodeReports node))"
    by (rule run_mem [OF assms]) (simp_all add: hd_noElseMessage)
  also have "\<dots> \<longleftrightarrow> (\<exists>f \<in> set files. \<exists>q doc recv name ty b inner e.
        Some (FuncDecl q doc recv name ty (Some b)) \<in> set (walkFile f) \<and>
        IfStmt p inner (Some e) \<in> set (blockList b))"
    unfolding nodeReports_noElse by blast
  finally show ?thesis .
qed

text \<open>
  Claim C6, as stated, fails: the function \<open>run\<close> of the example holds an if statement
  with an else branch inside a loop (position 39) and another one in the statement list of
  its body (position 60). The traversal visits both; only the second one is reported.
\<close>

theorem nested_else_not_flagged:
  "Some exNestedIf \<in> set (walkFile exNestedElseFile) \<and>
   runAnalyzer ''proj/cmd/a'' [exNestedElseFile] = Inr [(60, noElseMessage)]"
  by code_simp

theorem noElse_top_level_only_witness:
  "runAnalyzer ''proj/cmd/a'' [exNestedElseFile] = Inr [(60, noElseMessage)] \<and>
   (\<exists>f \<in> set [exNestedElseFile]. \<exists>q doc recv name ty b inner e.
      Some (FuncDecl q doc recv name ty (Some b)) \<in> set (walkFile f) \<and>
      IfStmt 60 inner (Some e) \<in> set (blockList b)) \<and>
   \<not> (\<exists>f \<in> set [exNestedElseFile]. \<exists>q doc recv name ty b inner e.
      Some (FuncDecl q doc recv name ty (Some b)) \<in> set (walkFile f) \<and>
      IfStmt 39 inner (Some e) \<in> set (blockList b))"
proof -
  have run: "runAnalyzer ''proj/cmd/a'' [exNestedElseFile] = Inr [(60, noElseMessage)]"
    by code_simp
  show ?thesis
    using noElse_top_level_only [OF run, of 60] noElse_top_level_only [OF run, of 39] run
    by simp
qed




subsection \<open>Runs that repeat a diagnostic, runs that panic\<close>

text \<open>
  Claim C2: the loop over the imports runs in every call of the callback, so the
  diagnostic for one offending import is reported once for each call and not once in the
  run. A file of the package \<open>proj/cmd/a\<close> whose only declaration imports
  \<open>proj/cmd/b\<close> has five nodes; the callback is called ten times, and the run reports
  the same diagnostic ten times.
\<close>

theorem sameGroup_reported_at_every_visit:
  "runAnalyzer ''proj/cmd/a'' [exImportFile ''proj/cmd/b''] =
     Inr (replicate 10 (18, ''must not import from the same group, same depth''))"
  by code_simp

lemma forbiddenGroupCheck_table:
  "forbiddenGroupCheck grp imp =
     (let impGroup = fst (splitPackagePath (Value (Path imp))) in
      if (grp, impGroup) \<in> {(''lib'', ''internal''), (''model'', ''internal''), (''gen'', ''internal'')}
        then [(impPos imp, ''must not import from internal package'')]
      else if (grp, impGroup) \<in> {(''lib'', ''cmd''), (''internal'', ''cmd''), (''model'', ''cmd''),
                                  (''gen'', ''cmd'')}
        then [(impPos imp, ''must not import from command package'')]
      else if (grp, impGroup) \<in> {(''model'', ''lib''), (''gen'', ''lib'')}
        then [(impPos imp, ''must not import from library package'')]
      else [])"
  by (simp add: forbiddenGroupCheck_def Let_def LibraryGroup_def InternalGroup_def
        CommandGroup_def ModelGroup_def GenGroup_def)

text \<open>
  Claim C3: the table of the forbidden groups is the one of the claim
  (\<open>forbiddenGroupCheck_table\<close>), and each call of the callback reports one
  diagnostic for a forbidden import; over the run the diagnostic is reported once for each
  call. The same file in the package \<open>proj/lib/a\<close>, importing
  \<open>proj/internal/b\<close>, gets the diagnostic ten times; importing \<open>proj/model/b\<close>
  it gets none.
\<close>

theorem forbidden_reported_at_every_visit:
  "runAnalyzer ''proj/lib/a'' [exImportFile ''proj/internal/b''] =
     Inr (replicate 10 (18, ''must not import from internal package'')) \<and>
   runAnalyzer ''proj/lib/a'' [exImportFile ''proj/model/b''] = Inr []"
  by code_simp

text \<open>
  Claim C8: a function declaration without a body has \<open>Body = nil\<close>, and line 279
  reads \<open>node.Body.List\<close>: the run panics. So does every run over a package whose path
  ends in a banned name, at the first call of the callback on \<open>nil\<close>
  (\<open>banned_name_always_panics\<close>).
\<close>

theorem bodyless_function_panics:
  "runAnalyzer ''proj/cmd/a'' [exBodylessFile] = Inl NilPointerDereference"
  by code_simp

lemma banned_name_panics:
  "runAnalyzer ''proj/util'' [exImportFile ''fmt''] = Inl NilPointerDereference"
  by code_simp

lemma error_unique: "(e :: error) = NilPointerDereference"
  by (cases e) simp

lemma visitAll_panics:
  assumes "n \<in> set ns" and "\<And>st. \<exists>e. fn n st = Inl e"
  shows "visitAll fn ns st = Inl NilPointerDereference"
  using assms(1)
proof (induction ns arbitrary: st)
  case Nil
  then show ?case by simp
next
  case (Cons m ns)
  show ?case
  proof (cases "fn m st")
    case (Inl e)
    then show ?thesis using error_unique [of e] by simp
  next
    case (Inr st1)
    then have "m \<noteq> n" using assms(2) [of st] by auto
    then have "n \<in> set ns" using Cons.prems by simp
    then show ?thesis using Cons.IH Inr by simp
  qed
qed

lemma analyzeFiles_panics:
  assumes "f \<in> set files" and "n \<in> set (walkFile f)"
    and "\<And>st. \<exists>e. callback packagePath f n st = Inl e"
  shows "analyzeFiles packagePath files st = Inl NilPointerDereference"
  using assms(1)
proof (induction files arbitrary: st)
  case Nil
  then show ?case by simp
next
  case (Cons g files)
  show ?case
  proof (cases "Inspect g (callback packagePath g) st")
    case (Inl e)
    then show ?thesis using error_unique [of e] by simp
  next
    case (Inr st1)
    have "g \<noteq> f"
    proof
      assume "g = f"
      then have "Inspect g (callback packagePath g) st = Inl NilPointerDereference"
        unfolding Inspect_def using visitAll_panics [OF assms(2), of "callback packagePath f"] assms(3)
        by simp
      then show False using Inr by simp
    qed
    then have "f \<in> set files" using Cons.prems by simp
    then show ?thesis using Cons.IH Inr by simp
  qed
qed

lemma callback_bodyless:
  "\<exists>e. callback packagePath f (Some (FuncDecl p doc recv name ty None)) st = Inl e"
proof -
  have "\<exists>e. typeSwitch f (Some (FuncDecl p doc recv name ty None)) s = Inl e" for s
    by (cases "funcNameSwitch (identName (fileName f)) p (identName name) ty s")
       (simp_all add: typeSwitch_def funcDeclCase_def bodyCheck_def)
  then show ?thesis
    by (cases "checkPackageName (snd (splitPackagePath packagePath))
          (Some (FuncDecl p doc recv name ty None))")
       (simp_all add: callback_def split_beta)
qed

lemma bodyless_always_panics:
  assumes "f \<in> set files" and "Some (FuncDecl p doc recv name ty None) \<in> set (walkFile f)"
  shows "runAnalyzer packagePath files = Inl NilPointerDereference"
  using analyzeFiles_panics [OF assms, of packagePath initState] callback_bodyless
  by (simp add: runAnalyzer_def)

lemma walkFile_has_nil: "None \<in> set (walkFile f)"
  by (simp add: walkFile_def fileNode_def)

lemma banned_name_always_panics:
  assumes "files \<noteq> []"
    and "map_of bannedPackageNames (last (snd (splitPackagePath packagePath))) \<noteq> None"
  shows "runAnalyzer packagePath files = Inl NilPointerDereference"
proof -
  obtain f where f: "f \<in> set files" using assms(1) by (cases files) auto
  have "0 < length (snd (splitPackagePath packagePath))"
    by (auto simp: splitPackagePath_def Let_def length_Split Split_nonempty)
  then have ne: "snd (splitPackagePath packagePath) \<noteq> []" by auto
  have "\<exists>e. callback packagePath f None st = Inl e" for st
    using assms(2) ne by (auto simp: callback_def split_beta checkPackageName_def)
  then show ?thesis
    using analyzeFiles_panics [OF f walkFile_has_nil, of packagePath initState]
    by (simp add: runAnalyzer_def)
qed

subsection \<open>The literal of an import path\<close>







end
